theory Spec2Isabelle
  imports Main
begin

section \<open>cardano-launcher: data model\<close>

text \<open>
  The embedding follows \<^verbatim>\<open>src/cardanoLauncher.ts\<close> and \<^verbatim>\<open>src/cli.ts\<close>.
  JavaScript numbers that hold TCP ports, exit codes and second counts are modelled as
  \<open>nat\<close> or \<open>int\<close>; \<open>null\<close> and \<open>undefined\<close> are \<open>None\<close>.
  Logger calls (\<^verbatim>\<open>logger.debug\<close>, \<^verbatim>\<open>logger.info\<close>) have no effect on
  control flow and are left out; \<^verbatim>\<open>console.error\<close> is kept in the trace.
\<close>

subsection \<open>Exit statuses (\<^verbatim>\<open>ServiceExitStatus\<close>, \<^verbatim>\<open>ExitStatus\<close>)\<close>

text \<open>
  \<^verbatim>\<open>ServiceExitStatus\<close> is declared in \<^verbatim>\<open>./service\<close>; the fields are those
  that \<^verbatim>\<open>cli.ts\<close> reads (\<^verbatim>\<open>exe\<close>, \<^verbatim>\<open>code\<close>, \<^verbatim>\<open>signal\<close>,
  \<^verbatim>\<open>err\<close>), with \<^verbatim>\<open>number | null\<close> and \<^verbatim>\<open>string | null\<close> as options.
\<close>

record ServiceExitStatus =
  exe :: string
  code :: "int option"
  signal :: "string option"
  err :: "string option"

record ExitStatus =
  wallet :: ServiceExitStatus
  node :: ServiceExitStatus

subsection \<open>\<^verbatim>\<open>combineStatus\<close> (cli.ts)\<close>

text \<open>
  \<^verbatim>\<open>_.reduce(statuses, f, null)\<close> is a left fold with initial accumulator \<open>null\<close>.
\<close>

definition combineStatus :: "ServiceExitStatus list \<Rightarrow> int" where
  "combineStatus statuses =
     (let code = foldl (\<lambda>res status. if res = None then code status else res) None statuses;
          signal = foldl (\<lambda>res status. if res = None then signal status else res) None statuses
      in case code of
           None \<Rightarrow> (case signal of None \<Rightarrow> 0 | Some _ \<Rightarrow> 127)
         | Some c \<Rightarrow> c)"

text \<open>
  The aggregator as the specification words it: the first non-null code in list order;
  failing that, 127 when some entry has a non-null signal; failing that, 0.
\<close>

fun firstCode :: "ServiceExitStatus list \<Rightarrow> int option" where
  "firstCode [] = None"
| "firstCode (s # ss) = (case code s of Some c \<Rightarrow> Some c | None \<Rightarrow> firstCode ss)"

definition anySignal :: "ServiceExitStatus list \<Rightarrow> bool" where
  "anySignal ss = (filter (\<lambda>s. signal s \<noteq> None) ss \<noteq> [])"

definition combine_spec :: "ServiceExitStatus list \<Rightarrow> int" where
  "combine_spec ss =
     (case firstCode ss of
        Some c \<Rightarrow> c
      | None \<Rightarrow> if anySignal ss then 127 else 0)"

subsection \<open>API connection parameters (\<^verbatim>\<open>RequestParams\<close>, \<^verbatim>\<open>Api\<close>, \<^verbatim>\<open>V2Api\<close>)\<close>

text \<open>
  A template literal renders a number that is a non-negative integer (a TCP port) in
  decimal, most significant digit first and without leading zeros.
\<close>

definition digitChar :: "nat \<Rightarrow> char" where
  "digitChar d = ''0123456789'' ! d"

function numberToString :: "nat \<Rightarrow> string" where
  "numberToString n =
     (if n < 10 then [digitChar n] else numberToString (n div 10) @ [digitChar (n mod 10)])"
  by pat_completeness auto
termination
  by (relation "measure id") auto

declare numberToString.simps [simp del]

record RequestParams =
  port :: nat
  path :: string
  hostname :: string

record Api =
  baseUrl :: string
  requestParams :: RequestParams

definition V2Api :: "nat \<Rightarrow> Api" where
  "V2Api p =
     (let hostname = ''127.0.0.1'';
          path = ''/v2/''
      in \<lparr> baseUrl = ''http://'' @ hostname @ '':'' @ numberToString p @ path,
           requestParams = \<lparr> port = p, path = path, hostname = hostname \<rparr> \<rparr>)"

subsection \<open>Launch configuration (\<^verbatim>\<open>LaunchConfig\<close>)\<close>

text \<open>
  The node configuration types are declared in \<^verbatim>\<open>./byron\<close>, \<^verbatim>\<open>./shelley\<close> and
  \<^verbatim>\<open>./jormungandr\<close>; the records below hold the fields that
  \<^verbatim>\<open>cardanoLauncher.ts\<close> reads. The tag \<^verbatim>\<open>kind\<close> is the constructor of
  \<open>NodeConfig\<close>. Field \<^verbatim>\<open>apiPort\<close> of \<^verbatim>\<open>LaunchConfig\<close> is \<open>configApiPort\<close>
  here, field \<^verbatim>\<open>network\<close> of the Jormungandr configuration is \<open>jormungandrNetwork\<close>
  (field names are global constants). The log stream
  \<^verbatim>\<open>childProcessLogWriteStream\<close> is only handed on to the Services and is left out.
\<close>

record ByronNetwork =
  genesisFile :: "string option"

record ByronNodeConfig =
  network :: ByronNetwork
  socketFile :: "string option"

record GenesisBlock =
  hash :: string

record JormungandrNetwork =
  genesisBlock :: GenesisBlock

record JormungandrConfig =
  restPort :: "nat option"
  jormungandrNetwork :: JormungandrNetwork

datatype NodeConfig =
    Jormungandr JormungandrConfig
  | Byron ByronNodeConfig
  | Shelley

record LaunchConfig =
  stateDir :: string
  networkName :: string
  configApiPort :: "nat option"
  listenAddress :: "string option"
  stakePoolRegistryUrl :: "string option"
  syncToleranceSeconds :: "nat option"
  nodeConfig :: NodeConfig
  installSignalHandlers :: "bool option"

definition kind :: "NodeConfig \<Rightarrow> string" where
  "kind c = (case c of
               Jormungandr _ \<Rightarrow> ''jormungandr''
             | Byron _ \<Rightarrow> ''byron''
             | Shelley \<Rightarrow> ''shelley'')"

subsection \<open>Process descriptions (\<^verbatim>\<open>StartService\<close>, \<^verbatim>\<open>WalletStartService\<close>)\<close>

text \<open>
  \<^verbatim>\<open>StartService\<close> is declared in \<^verbatim>\<open>./service\<close>; its fields are those that
  \<^verbatim>\<open>walletExe\<close> fills in. Field \<^verbatim>\<open>apiPort\<close> of \<^verbatim>\<open>WalletStartService\<close> is
  \<open>serviceApiPort\<close> here.
\<close>

record StartService =
  command :: string
  args :: "string list"
  extraEnv :: "(string \<times> string) list option"
  supportsCleanShutdown :: bool

record WalletStartService = StartService +
  serviceApiPort :: nat

subsection \<open>Errors (\<^verbatim>\<open>Error\<close>, \<^verbatim>\<open>BackendExitedError\<close>, \<^verbatim>\<open>exitStatusMessage\<close>)\<close>

text \<open>
  An \<^verbatim>\<open>Error\<close> carries its message; a \<^verbatim>\<open>BackendExitedError\<close> carries its
  message and the \<^verbatim>\<open>status\<close> field.
\<close>

datatype error =
    Error string
  | BackendExitedError string ExitStatus

fun message :: "error \<Rightarrow> string" where
  "message (Error m) = m"
| "message (BackendExitedError m st) = m"

text \<open>\<^verbatim>\<open>Array.prototype.join\<close>.\<close>

fun join :: "string \<Rightarrow> string list \<Rightarrow> string" where
  "join sep [] = []"
| "join sep [x] = x"
| "join sep (x # y # ys) = x @ sep @ join sep (y # ys)"

text \<open>
  \<^verbatim>\<open>serviceExitStatusMessage\<close> (of \<^verbatim>\<open>./service\<close>) is a parameter.
  \<^verbatim>\<open>_.map(status, f)\<close> visits the values of an object in key order; the object built
  by \<^verbatim>\<open>Launcher.stop\<close> is \<^verbatim>\<open>{ wallet, node }\<close>.
\<close>

definition exitStatusMessage :: "(ServiceExitStatus \<Rightarrow> string) \<Rightarrow> ExitStatus \<Rightarrow> string" where
  "exitStatusMessage serviceExitStatusMessage status =
     join [CHR 0x0A] (map serviceExitStatusMessage [wallet status, node status])"

definition BackendExitedError_new :: "(ServiceExitStatus \<Rightarrow> string) \<Rightarrow> ExitStatus \<Rightarrow> error" where
  "BackendExitedError_new serviceExitStatusMessage status =
     BackendExitedError (exitStatusMessage serviceExitStatusMessage status) status"

subsection \<open>\<^verbatim>\<open>walletExe\<close>\<close>

text \<open>
  \<^verbatim>\<open>path.join\<close> (Node.js) is the parameter \<open>pathJoin\<close>; the value that
  \<^verbatim>\<open>await getPort()\<close> yields is the parameter \<open>freePort\<close>, read only when the
  configuration gives no port (\<^verbatim>\<open>config.apiPort ?? (await getPort())\<close>). The function
  is \<^verbatim>\<open>async\<close>: \<open>Inl\<close> is a rejection of the promise it returns, never a
  synchronous throw.
\<close>

definition addArgs :: "WalletStartService \<Rightarrow> string list \<Rightarrow> WalletStartService" where
  "addArgs base as = base\<lparr>args := args base @ as\<rparr>"

definition walletExe ::
  "(string \<Rightarrow> string \<Rightarrow> string) \<Rightarrow> string \<Rightarrow> LaunchConfig \<Rightarrow> nat \<Rightarrow> error + WalletStartService" where
  "walletExe pathJoin baseDir config freePort =
     (let apiPort = (case configApiPort config of Some p \<Rightarrow> p | None \<Rightarrow> freePort);
          base = \<lparr> command = ''cardano-wallet-'' @ kind (nodeConfig config),
                   args = [''serve'', ''--shutdown-handler'', ''--port'', numberToString apiPort,
                           ''--database'', pathJoin baseDir ''wallets'']
                          @ (case listenAddress config of
                               Some a \<Rightarrow> [''--listen-address'', a] | None \<Rightarrow> [])
                          @ (case syncToleranceSeconds config of
                               Some n \<Rightarrow> [''--sync-tolerance'', numberToString n @ ''s'']
                             | None \<Rightarrow> []),
                   extraEnv = (case stakePoolRegistryUrl config of
                                 Some u \<Rightarrow> Some [(''CARDANO_WALLET_STAKE_POOL_REGISTRY_URL'', u)]
                               | None \<Rightarrow> None),
                   supportsCleanShutdown = True,
                   serviceApiPort = apiPort \<rparr>
      in case nodeConfig config of
           Jormungandr c \<Rightarrow>
             Inr (addArgs base
                   ((case restPort c of
                       Some p \<Rightarrow> [''--node-port'', numberToString p] | None \<Rightarrow> [])
                    @ [''--genesis-block-hash'', hash (genesisBlock (jormungandrNetwork c))]))
         | Byron c \<Rightarrow>
             if networkName config \<noteq> ''mainnet'' \<and> genesisFile (network c) = None
             then Inl (Error ''ByronNetwork.genesisFile must be configured'')
             else Inr (addArgs base
                   ((if networkName config = ''mainnet''
                     then [''--mainnet'']
                     else [''--testnet'',
                           (case genesisFile (network c) of Some g \<Rightarrow> g | None \<Rightarrow> ''undefined'')])
                    @ (case socketFile c of
                         Some f \<Rightarrow> [''--node-socket'', f] | None \<Rightarrow> [])))
         | Shelley \<Rightarrow> Inr base)"

section \<open>The Launcher as an event-driven state machine\<close>

text \<open>
  JavaScript runs one callback at a time. The Launcher is therefore modelled by its
  state and by one function per callback of \<^verbatim>\<open>cardanoLauncher.ts\<close>; an execution is a
  list of events, each handled to completion before the next. Two interleaved calls
  of an \<^verbatim>\<open>async\<close> method are two entries of a list of calls in progress.

  The two Services (\<^verbatim>\<open>./service\<close>) are the environment: the Launcher calls
  \<^verbatim>\<open>start()\<close> and \<^verbatim>\<open>stop(t)\<close> on them (recorded in the trace) and the Services
  answer by settling promises and by \<^verbatim>\<open>statusChanged\<close> notifications (events). No
  order is imposed on what the environment does, so that an execution of the program
  with any Service is an execution of the model; a notification that a Service emits
  while the Launcher is calling it is an event that follows the call.
  Listeners registered by client code are observers: an emitted notification is
  appended to the trace. A listener of \<^verbatim>\<open>exit\<close> returns or throws; a listener of
  \<^verbatim>\<open>ready\<close> returns; client code does not remove the listeners that \<^verbatim>\<open>start()\<close>
  registers.
\<close>

subsection \<open>State\<close>

text \<open>
  Modelled from the spec: the enum \<^verbatim>\<open>ServiceStatus\<close> of \<^verbatim>\<open>./service\<close>, an
  "ordered enum \<open>{Starting, Started, Stopping, Stopped}\<close>, totally ordered so that
  status > Started means the process is no longer healthily running".
\<close>

datatype ServiceStatus = Starting | Started | Stopping | Stopped

fun statusOrd :: "ServiceStatus \<Rightarrow> nat" where
  "statusOrd Starting = 0"
| "statusOrd Started = 1"
| "statusOrd Stopping = 2"
| "statusOrd Stopped = 3"

datatype svc = WalletSvc | NodeSvc

datatype 'a promise = Pending | Fulfilled 'a | Rejected error

text \<open>
  What the Launcher does to the outside and what it is told, in order of occurrence.
  \<open>ServiceStart sv i\<close>: call \<open>i\<close> of \<^verbatim>\<open>Launcher.start()\<close> calls \<^verbatim>\<open>start()\<close> on Service
  \<open>sv\<close>; \<open>ServiceStarted sv i\<close>: the promise of that call is fulfilled.
\<close>

datatype effect =
    Mkdirp string
  | CallWalletExe
  | CallGetPort
  | ServiceStart svc nat
  | ServiceStarted svc nat
  | ServiceStop svc nat
  | SocketConnect nat string
  | EmitReady Api
  | EmitExit ExitStatus
  | ConsoleError string

text \<open>
  One call of \<^verbatim>\<open>Launcher.start()\<close>: where its body stands (\<open>phase\<close>), and the
  promise, the interval timer and the number of sockets created by its call of
  \<^verbatim>\<open>waitForApi\<close>.
\<close>

datatype startPhase =
    AwaitNode
  | AwaitWallet
  | Listening
  | Resolved Api
  | Failed error

datatype waitState =
    NotPolling
  | Polling
  | ApiReady
  | PollingFailed error

record startCall =
  phase :: startPhase
  timer :: bool
  waitApi :: waitState
  sockets :: nat

text \<open>
  One call of \<^verbatim>\<open>Launcher.stop()\<close>: the promise that it returns.
\<close>

datatype stopCall =
    StopPending
  | StopDone ExitStatus
  | StopFailed error

text \<open>
  \<open>apiPort\<close> and \<open>exited\<close> are the private fields of the class; \<open>startNode\<close> and
  \<open>startWallet\<close> are the two promises of \<^verbatim>\<open>makeServiceCommands\<close>;
  \<open>walletStatus\<close> and \<open>nodeStatus\<close> are what \<^verbatim>\<open>getStatus()\<close> of the two Services
  returns; \<open>caughtStops\<close> are the calls of \<^verbatim>\<open>stop()\<close> made by the listeners of the
  constructor, whose promise has the handler
  \<^verbatim>\<open>catch(error => console.error(error.message))\<close>.
\<close>

record Launcher =
  config :: LaunchConfig
  apiPort :: nat
  exited :: bool
  startNode :: "StartService promise"
  startWallet :: "WalletStartService promise"
  awaitingGetPort :: bool
  walletStatus :: ServiceStatus
  nodeStatus :: ServiceStatus
  signalHandlers :: bool
  startCalls :: "startCall list"
  stopCalls :: "stopCall list"
  caughtStops :: "nat list"
  trace :: "effect list"

text \<open>
  Taken as parameters: \<^verbatim>\<open>path.join\<close> of Node.js and the formatter
  \<^verbatim>\<open>serviceExitStatusMessage\<close> of \<^verbatim>\<open>./service\<close>.
\<close>

record platform =
  pathJoin :: "string \<Rightarrow> string \<Rightarrow> string"
  serviceExitStatusMessage :: "ServiceExitStatus \<Rightarrow> string"

subsection \<open>The constructor and \<^verbatim>\<open>makeServiceCommands\<close>\<close>

text \<open>
  The constructor runs \<^verbatim>\<open>makeServiceCommands\<close>, which calls \<^verbatim>\<open>mkdirp\<close> and
  chains \<^verbatim>\<open>nodeExe\<close> and \<^verbatim>\<open>walletExe\<close> behind it with \<^verbatim>\<open>then\<close>: both promises
  are pending when the constructor returns. It has no \<^verbatim>\<open>throw\<close> statement, and the
  callbacks it registers run later: \<open>Inl\<close>, a synchronous throw, is never its result.
  The initial status of a Service is modelled from the spec ("Starting (initial ...)").
\<close>

definition Launcher_init :: "LaunchConfig \<Rightarrow> Launcher" where
  "Launcher_init c =
     \<lparr> config = c, apiPort = 0, exited = False,
       startNode = Pending, startWallet = Pending, awaitingGetPort = False,
       walletStatus = Starting, nodeStatus = Starting,
       signalHandlers = (case installSignalHandlers c of None \<Rightarrow> True | Some b \<Rightarrow> b),
       startCalls = [], stopCalls = [], caughtStops = [],
       trace = [Mkdirp (stateDir c)] \<rparr>"

definition Launcher_new :: "LaunchConfig \<Rightarrow> error + Launcher" where
  "Launcher_new c = Inr (Launcher_init c)"

text \<open>
  The promise \<^verbatim>\<open>start.wallet\<close> settles; the constructor's
  \<^verbatim>\<open>start.wallet.then(...).catch(...)\<close> records the port or prints the message.
\<close>

definition walletSettled :: "error + WalletStartService \<Rightarrow> Launcher \<Rightarrow> Launcher" where
  "walletSettled r l =
     (case r of
        Inl e \<Rightarrow> l\<lparr>startWallet := Rejected e, trace := trace l @ [ConsoleError (message e)]\<rparr>
      | Inr startService \<Rightarrow>
          l\<lparr>startWallet := Fulfilled startService, apiPort := serviceApiPort startService\<rparr>)"

text \<open>
  The promise \<^verbatim>\<open>start.node\<close> (\<^verbatim>\<open>mkdirp(...).then(nodeExe)\<close>) settles with \<open>r\<close>, the
  outcome of directory creation and of \<^verbatim>\<open>nodeExe\<close>, whose three branches call into
  \<^verbatim>\<open>./byron\<close>, \<^verbatim>\<open>./shelley\<close> and \<^verbatim>\<open>./jormungandr\<close>. On fulfilment the callback
  of \<^verbatim>\<open>node.then\<close> calls \<^verbatim>\<open>walletExe\<close>, which runs to its end when the
  configuration gives a port (\<^verbatim>\<open>getPort()\<close> is not called, and the last argument of
  \<open>walletExe\<close> is not read) and is suspended at \<^verbatim>\<open>await getPort()\<close> otherwise. A
  rejection passes through \<^verbatim>\<open>node.then\<close> to \<^verbatim>\<open>start.wallet\<close>.
\<close>

definition nodeSettled :: "platform \<Rightarrow> error + StartService \<Rightarrow> Launcher \<Rightarrow> Launcher" where
  "nodeSettled P r l =
     (if startNode l \<noteq> Pending then l
      else case r of
        Inl e \<Rightarrow> walletSettled (Inl e) (l\<lparr>startNode := Rejected e\<rparr>)
      | Inr startService \<Rightarrow>
          (let l1 = l\<lparr>startNode := Fulfilled startService, trace := trace l @ [CallWalletExe]\<rparr>
           in case configApiPort (config l) of
                Some p \<Rightarrow>
                  walletSettled (walletExe (pathJoin P) (stateDir (config l)) (config l) p) l1
              | None \<Rightarrow> l1\<lparr>awaitingGetPort := True, trace := trace l1 @ [CallGetPort]\<rparr>))"

text \<open>
  The promise of \<^verbatim>\<open>getPort()\<close> settles: \<^verbatim>\<open>walletExe\<close> goes on with the port, or
  is rejected with the error of \<^verbatim>\<open>getPort()\<close>.
\<close>

definition getPortSettled :: "platform \<Rightarrow> error + nat \<Rightarrow> Launcher \<Rightarrow> Launcher" where
  "getPortSettled P r l =
     (if awaitingGetPort l
      then walletSettled
             (case r of
                Inl e \<Rightarrow> Inl e
              | Inr freePort \<Rightarrow> walletExe (pathJoin P) (stateDir (config l)) (config l) freePort)
             (l\<lparr>awaitingGetPort := False\<rparr>)
      else l)"

subsection \<open>\<^verbatim>\<open>walletBackend.getApi\<close> and the two notifications\<close>

definition getApi :: "Launcher \<Rightarrow> Api" where
  "getApi l = V2Api (apiPort l)"

text \<open>
  \<^verbatim>\<open>events.emit('ready', api)\<close>: the listener \<^verbatim>\<open>resolve\<close> of every call of
  \<^verbatim>\<open>start()\<close> that has reached its last statement settles that call, if it is still
  pending.
\<close>

definition emitReady :: "Api \<Rightarrow> Launcher \<Rightarrow> Launcher" where
  "emitReady api l =
     l\<lparr>startCalls := map (\<lambda>c. if phase c = Listening then c\<lparr>phase := Resolved api\<rparr> else c)
                          (startCalls l),
       trace := trace l @ [EmitReady api]\<rparr>"

text \<open>
  \<^verbatim>\<open>events.emit('exit', status)\<close> when every listener returns: the listener
  \<^verbatim>\<open>st => reject(new BackendExitedError(st))\<close> of every such call.
\<close>

definition emitExit :: "platform \<Rightarrow> ExitStatus \<Rightarrow> Launcher \<Rightarrow> Launcher" where
  "emitExit P status l =
     l\<lparr>startCalls :=
         map (\<lambda>c. if phase c = Listening
                  then c\<lparr>phase := Failed (BackendExitedError_new (serviceExitStatusMessage P) status)\<rparr>
                  else c)
             (startCalls l),
       trace := trace l @ [EmitExit status]\<rparr>"

text \<open>
  \<^verbatim>\<open>events.emit('exit', status)\<close> when a listener throws: the listeners are called in
  the order of their registration, and \<^verbatim>\<open>emit\<close> is left at the first one that throws.
  \<open>js\<close> are the calls of \<^verbatim>\<open>start()\<close> whose listener is registered before that one.
\<close>

definition emitExitTo :: "platform \<Rightarrow> ExitStatus \<Rightarrow> nat list \<Rightarrow> Launcher \<Rightarrow> Launcher" where
  "emitExitTo P status js l =
     l\<lparr>startCalls :=
         map (\<lambda>j. let c = startCalls l ! j
                  in if j \<in> set js \<and> phase c = Listening
                     then c\<lparr>phase := Failed (BackendExitedError_new (serviceExitStatusMessage P) status)\<rparr>
                     else c)
             [0..<length (startCalls l)],
       trace := trace l @ [EmitExit status]\<rparr>"

subsection \<open>\<^verbatim>\<open>Launcher.start\<close>\<close>

definition newStartCall :: startCall where
  "newStartCall = \<lparr> phase = AwaitNode, timer = False, waitApi = NotPolling, sockets = 0 \<rparr>"

text \<open>The call itself: up to \<^verbatim>\<open>await this.nodeService.start()\<close>.\<close>

definition Launcher_start :: "Launcher \<Rightarrow> Launcher" where
  "Launcher_start l =
     l\<lparr>startCalls := startCalls l @ [newStartCall],
       trace := trace l @ [ServiceStart NodeSvc (length (startCalls l))]\<rparr>"

text \<open>
  The promise that call \<open>i\<close> awaits settles (\<open>None\<close>: fulfilled; \<open>Some e\<close>: rejected
  with \<open>e\<close>, which rejects \<^verbatim>\<open>start()\<close>). After the node: \<^verbatim>\<open>walletService.start()\<close>
  is called. After the wallet: \<^verbatim>\<open>waitForApi\<close> creates its promise and its interval
  timer, and the listeners for \<^verbatim>\<open>ready\<close> and \<^verbatim>\<open>exit\<close> are registered.
  Modelled from the spec: \<^verbatim>\<open>Service.start()\<close> "resolves once the process has been
  spawned", so its fulfilment is the confirmation of the spawn (\<open>ServiceStarted\<close>).
\<close>

definition startResumed :: "nat \<Rightarrow> error option \<Rightarrow> Launcher \<Rightarrow> Launcher" where
  "startResumed i r l =
     (if i < length (startCalls l)
      then
        (let c = startCalls l ! i
         in case phase c of
              AwaitNode \<Rightarrow>
                (case r of
                   Some e \<Rightarrow> l\<lparr>startCalls := (startCalls l)[i := c\<lparr>phase := Failed e\<rparr>]\<rparr>
                 | None \<Rightarrow>
                     l\<lparr>startCalls := (startCalls l)[i := c\<lparr>phase := AwaitWallet\<rparr>],
                       trace := trace l @ [ServiceStarted NodeSvc i, ServiceStart WalletSvc i]\<rparr>)
            | AwaitWallet \<Rightarrow>
                (case r of
                   Some e \<Rightarrow> l\<lparr>startCalls := (startCalls l)[i := c\<lparr>phase := Failed e\<rparr>]\<rparr>
                 | None \<Rightarrow>
                     l\<lparr>startCalls :=
                         (startCalls l)[i := c\<lparr>phase := Listening, timer := True, waitApi := Polling\<rparr>],
                       trace := trace l @ [ServiceStarted WalletSvc i]\<rparr>)
            | _ \<Rightarrow> l)
      else l)"

subsection \<open>\<^verbatim>\<open>Launcher.waitForApi\<close>\<close>

text \<open>The stop-predicate that \<^verbatim>\<open>start()\<close> passes to \<^verbatim>\<open>waitForApi\<close>.\<close>

definition stopWaiting :: "Launcher \<Rightarrow> bool" where
  "stopWaiting l =
     (statusOrd (nodeStatus l) > statusOrd Started \<or> statusOrd (walletStatus l) > statusOrd Started)"

text \<open>
  One firing of the interval timer of call \<open>i\<close>: the function \<^verbatim>\<open>poll\<close>. Rejecting a
  promise that is already settled does nothing; a rejection reaches the
  \<^verbatim>\<open>catch\<close> that \<^verbatim>\<open>start()\<close> hangs behind \<^verbatim>\<open>waitForApi\<close>.
\<close>

definition poll :: "nat \<Rightarrow> Launcher \<Rightarrow> Launcher" where
  "poll i l =
     (if i < length (startCalls l) \<and> timer (startCalls l ! i)
      then
        (let c = startCalls l ! i
         in if stopWaiting l
            then
              (if waitApi c = Polling
               then l\<lparr>startCalls :=
                         (startCalls l)[i := c\<lparr>timer := False,
                                                 waitApi := PollingFailed (Error ''Polling stopped'')\<rparr>],
                       trace := trace l @ [ConsoleError ''Polling stopped'']\<rparr>
               else l\<lparr>startCalls := (startCalls l)[i := c\<lparr>timer := False\<rparr>]\<rparr>)
            else if apiPort l \<noteq> 0
            then l\<lparr>startCalls := (startCalls l)[i := c\<lparr>sockets := sockets c + 1\<rparr>],
                   trace := trace l @ [SocketConnect (apiPort l) ''127.0.0.1'']\<rparr>
            else l)
      else l)"

text \<open>
  A socket created by call \<open>i\<close> connects: the timer is cleared and the promise of
  \<^verbatim>\<open>waitForApi\<close> is resolved; if it was pending, the \<^verbatim>\<open>then\<close> of \<^verbatim>\<open>start()\<close> emits
  \<^verbatim>\<open>ready\<close>.
\<close>

definition socketConnected :: "nat \<Rightarrow> Launcher \<Rightarrow> Launcher" where
  "socketConnected i l =
     (if i < length (startCalls l) \<and> 0 < sockets (startCalls l ! i)
      then
        (let c = startCalls l ! i
         in if waitApi c = Polling
            then
              (let l1 = l\<lparr>startCalls := (startCalls l)[i := c\<lparr>timer := False, waitApi := ApiReady\<rparr>]\<rparr>
               in emitReady (getApi l1) l1)
            else l\<lparr>startCalls := (startCalls l)[i := c\<lparr>timer := False\<rparr>]\<rparr>)
      else l)"

subsection \<open>\<^verbatim>\<open>Launcher.stop\<close>\<close>

text \<open>
  The call itself: \<^verbatim>\<open>stop(timeoutSeconds)\<close> on both Services, then
  \<^verbatim>\<open>Promise.all\<close> is awaited.
\<close>

definition Launcher_stop :: "nat option \<Rightarrow> Launcher \<Rightarrow> Launcher" where
  "Launcher_stop timeoutSeconds l =
     (let t = (case timeoutSeconds of None \<Rightarrow> 60 | Some t \<Rightarrow> t)
      in l\<lparr>stopCalls := stopCalls l @ [StopPending],
           trace := trace l @ [ServiceStop WalletSvc t, ServiceStop NodeSvc t]\<rparr>)"

text \<open>
  Both Services have answered call \<open>k\<close>, with \<open>w\<close> and \<open>n\<close>: the callback of
  \<^verbatim>\<open>Promise.all(...).then\<close>, when every listener of \<^verbatim>\<open>exit\<close> returns. The
  notification is emitted first and \<^verbatim>\<open>this.exited = true\<close> comes after it. (The
  Service of the specification never rejects \<^verbatim>\<open>stop()\<close>: "\<open>stop()\<close> never fails
  outward -- it always resolves".)
\<close>

definition servicesStopped ::
  "platform \<Rightarrow> nat \<Rightarrow> ServiceExitStatus \<Rightarrow> ServiceExitStatus \<Rightarrow> Launcher \<Rightarrow> Launcher" where
  "servicesStopped P k w n l =
     (if k < length (stopCalls l) \<and> stopCalls l ! k = StopPending
      then
        (let status = \<lparr> wallet = w, node = n \<rparr>;
             l1 = (if \<not> exited l then (emitExit P status l)\<lparr>exited := True\<rparr> else l)
         in l1\<lparr>stopCalls := (stopCalls l1)[k := StopDone status]\<rparr>)
      else l)"

text \<open>
  The same callback when a listener of \<^verbatim>\<open>exit\<close> throws \<open>e\<close>: the exception leaves
  \<^verbatim>\<open>emit\<close> and the callback, \<^verbatim>\<open>this.exited = true\<close> is not reached, and the promise
  of \<^verbatim>\<open>stop()\<close> is rejected with \<open>e\<close>; the handler of a call made by a listener of the
  constructor prints the message. Nothing is emitted, and no listener runs, when
  \<^verbatim>\<open>this.exited\<close> is set.
\<close>

definition exitListenerThrows ::
  "platform \<Rightarrow> nat \<Rightarrow> ServiceExitStatus \<Rightarrow> ServiceExitStatus \<Rightarrow> nat list \<Rightarrow> error
     \<Rightarrow> Launcher \<Rightarrow> Launcher" where
  "exitListenerThrows P k w n js e l =
     (if k < length (stopCalls l) \<and> stopCalls l ! k = StopPending \<and> \<not> exited l
      then
        (let status = \<lparr> wallet = w, node = n \<rparr>;
             l1 = emitExitTo P status js l
         in l1\<lparr>stopCalls := (stopCalls l1)[k := StopFailed e],
               trace := trace l1 @ (if k \<in> set (caughtStops l1)
                                    then [ConsoleError (message e)] else [])\<rparr>)
      else l)"

subsection \<open>Listeners of the constructor\<close>

text \<open>
  A Service reports a new status: \<^verbatim>\<open>getStatus()\<close> returns it from now on, and the
  listener that the constructor registered on \<^verbatim>\<open>statusChanged\<close> runs. On
  \<open>Stopped\<close> it calls \<^verbatim>\<open>this.stop()\<close> and hangs its \<^verbatim>\<open>catch\<close> behind the promise.
\<close>

definition statusChanged :: "svc \<Rightarrow> ServiceStatus \<Rightarrow> Launcher \<Rightarrow> Launcher" where
  "statusChanged sv status l =
     (let l1 = (case sv of
                  WalletSvc \<Rightarrow> l\<lparr>walletStatus := status\<rparr>
                | NodeSvc \<Rightarrow> l\<lparr>nodeStatus := status\<rparr>)
      in if status = Stopped
         then (Launcher_stop None l1)\<lparr>caughtStops := caughtStops l1 @ [length (stopCalls l1)]\<rparr>
         else l1)"

text \<open>A termination signal arrives (\<^verbatim>\<open>installSignalHandlers\<close>).\<close>

definition signalReceived :: "Launcher \<Rightarrow> Launcher" where
  "signalReceived l =
     (if signalHandlers l
      then l\<lparr>trace := trace l @ [ServiceStop WalletSvc 0, ServiceStop NodeSvc 0]\<rparr>
      else l)"

subsection \<open>Executions\<close>

text \<open>
  What the client does: \<open>CallStart\<close> and \<open>CallStop t\<close> are calls of \<^verbatim>\<open>start()\<close> and of
  \<^verbatim>\<open>stop(t)\<close> (\<open>None\<close>: no argument). What the environment does: \<open>NodeSettled\<close> and
  \<open>GetPortSettled\<close> settle the promises behind the process descriptions;
  \<open>StartResumed i r\<close> settles the \<^verbatim>\<open>Service.start()\<close> that call \<open>i\<close> of \<^verbatim>\<open>start()\<close>
  awaits; \<open>PollTick i\<close> fires the interval timer of call \<open>i\<close>; \<open>SocketConnected i\<close> connects
  one of its sockets (a socket that fails only writes to the log); \<open>ServicesStopped k w n\<close>
  fulfils the \<^verbatim>\<open>Promise.all\<close> of call \<open>k\<close> of \<^verbatim>\<open>stop()\<close> with the two exit statuses,
  every listener of \<^verbatim>\<open>exit\<close> returning; \<open>ExitListenerThrows k w n js e\<close> does the same
  with a listener of \<^verbatim>\<open>exit\<close> that throws \<open>e\<close>;
  \<open>StatusChanged\<close> is a \<^verbatim>\<open>statusChanged\<close> notification of a Service;
  \<open>SignalReceived\<close> is one of the four termination signals. An event that cannot occur
  in a state (a timer that is not running, a promise that is already settled) leaves the
  state as it is.
\<close>

datatype event =
    NodeSettled "error + StartService"
  | GetPortSettled "error + nat"
  | CallStart
  | StartResumed nat "error option"
  | PollTick nat
  | SocketConnected nat
  | CallStop "nat option"
  | ServicesStopped nat ServiceExitStatus ServiceExitStatus
  | ExitListenerThrows nat ServiceExitStatus ServiceExitStatus "nat list" error
  | StatusChanged svc ServiceStatus
  | SignalReceived

fun step :: "platform \<Rightarrow> event \<Rightarrow> Launcher \<Rightarrow> Launcher" where
  "step P (NodeSettled r) l = nodeSettled P r l"
| "step P (GetPortSettled r) l = getPortSettled P r l"
| "step P CallStart l = Launcher_start l"
| "step P (StartResumed i r) l = startResumed i r l"
| "step P (PollTick i) l = poll i l"
| "step P (SocketConnected i) l = socketConnected i l"
| "step P (CallStop t) l = Launcher_stop t l"
| "step P (ServicesStopped k w n) l = servicesStopped P k w n l"
| "step P (ExitListenerThrows k w n js e) l = exitListenerThrows P k w n js e l"
| "step P (StatusChanged sv status) l = statusChanged sv status l"
| "step P SignalReceived l = signalReceived l"

definition run :: "platform \<Rightarrow> event list \<Rightarrow> Launcher \<Rightarrow> Launcher" where
  "run P evs l = fold (step P) evs l"

text \<open>The notifications in a trace.\<close>

fun exitsOf :: "effect list \<Rightarrow> ExitStatus list" where
  "exitsOf [] = []"
| "exitsOf (EmitExit st # es) = st # exitsOf es"
| "exitsOf (_ # es) = exitsOf es"

fun readysOf :: "effect list \<Rightarrow> Api list" where
  "readysOf [] = []"
| "readysOf (EmitReady api # es) = api # readysOf es"
| "readysOf (_ # es) = readysOf es"

text \<open>
  Whether every occurrence of \<open>b\<close> in a trace has an occurrence of \<open>a\<close> before it.
\<close>

fun precededBy :: "effect \<Rightarrow> effect \<Rightarrow> effect list \<Rightarrow> bool" where
  "precededBy a b [] = True"
| "precededBy a b (e # es) = (if e = a then True else if e = b then False else precededBy a b es)"

text \<open>The errors with which the environment rejected a \<^verbatim>\<open>Service.start()\<close> promise.\<close>

fun startRejections :: "event list \<Rightarrow> error list" where
  "startRejections [] = []"
| "startRejections (StartResumed i (Some e) # evs) = e # startRejections evs"
| "startRejections (_ # evs) = startRejections evs"

section \<open>Example inputs\<close>

text \<open>
  A platform that joins paths with a slash and formats an exit status by its program
  name, and three configurations: a Shelley node on testnet with a configured API port,
  the same with a listen address and no port, and a Byron node on testnet without a
  genesis file.
\<close>

definition examplePlatform :: platform where
  "examplePlatform =
     \<lparr> pathJoin = (\<lambda>a b. a @ ''/'' @ b),
       serviceExitStatusMessage = (\<lambda>s. exe s @ '' exited'') \<rparr>"

definition shelleyConfig :: LaunchConfig where
  "shelleyConfig =
     \<lparr> stateDir = ''/tmp/state-launcher'', networkName = ''testnet'',
       configApiPort = Some 8090, listenAddress = None, stakePoolRegistryUrl = None,
       syncToleranceSeconds = None, nodeConfig = Shelley, installSignalHandlers = None \<rparr>"

definition listenConfig :: LaunchConfig where
  "listenConfig =
     \<lparr> stateDir = ''/tmp/state-launcher'', networkName = ''testnet'',
       configApiPort = None, listenAddress = Some ''0.0.0.0'', stakePoolRegistryUrl = None,
       syncToleranceSeconds = None, nodeConfig = Shelley, installSignalHandlers = None \<rparr>"

definition byronTestnetConfig :: LaunchConfig where
  "byronTestnetConfig =
     \<lparr> stateDir = ''/tmp/state-launcher'', networkName = ''testnet'',
       configApiPort = Some 8090, listenAddress = None, stakePoolRegistryUrl = None,
       syncToleranceSeconds = None,
       nodeConfig = Byron \<lparr> network = \<lparr> genesisFile = None \<rparr>, socketFile = None \<rparr>,
       installSignalHandlers = None \<rparr>"

definition nodeCommand :: StartService where
  "nodeCommand =
     \<lparr> command = ''cardano-node'', args = [''run''], extraEnv = None,
       supportsCleanShutdown = False \<rparr>"

definition exitOk :: "string \<Rightarrow> ServiceExitStatus" where
  "exitOk name = \<lparr> exe = name, code = Some 0, signal = None, err = None \<rparr>"

definition exitFailed :: "string \<Rightarrow> ServiceExitStatus" where
  "exitFailed name = \<lparr> exe = name, code = Some 1, signal = None, err = None \<rparr>"

section \<open>Views of the state and invariants of executions\<close>

text \<open>
  Projections of the Launcher state and the predicates that hold along every
  execution; the proofs follow in the sections below.
\<close>

text \<open>
  The part of the state that the exit notification depends on: the gate, the calls of
  \<^verbatim>\<open>stop()\<close> and the exit notifications emitted so far.
\<close>

definition exitView :: "Launcher \<Rightarrow> bool \<times> stopCall list \<times> ExitStatus list" where
  "exitView l = (exited l, stopCalls l, exitsOf (trace l))"

text \<open>
  No listener of \<^verbatim>\<open>exit\<close> throws during the events.
\<close>

fun listenersReturn :: "event list \<Rightarrow> bool" where
  "listenersReturn [] = True"
| "listenersReturn (ExitListenerThrows k w n js e # evs) = False"
| "listenersReturn (_ # evs) = listenersReturn evs"

text \<open>
  The one-shot gate while every listener of \<^verbatim>\<open>exit\<close> returns: one
  exit notification when the gate is closed, none before; the gate is closed exactly
  when some call of \<^verbatim>\<open>stop()\<close> has completed.
\<close>

definition exitGate :: "bool \<times> stopCall list \<times> ExitStatus list \<Rightarrow> bool" where
  "exitGate v =
     (case v of (ex, calls, exits) \<Rightarrow>
        length exits = (if ex then 1 else 0) \<and> ex = (\<exists>s \<in> set calls. s \<noteq> StopPending))"

text \<open>
  Every connection attempt of a trace goes to a known port on the loopback address.
\<close>

definition connectsOk :: "effect list \<Rightarrow> bool" where
  "connectsOk tr = (\<forall>p h. SocketConnect p h \<in> set tr \<longrightarrow> p \<noteq> 0 \<and> h = ''127.0.0.1'')"

text \<open>
  Where each call of \<^verbatim>\<open>start()\<close> stands.
\<close>

definition phases :: "Launcher \<Rightarrow> startPhase list" where
  "phases l = map phase (startCalls l)"

text \<open>
  What a listener of \<^verbatim>\<open>start()\<close> does to a call: a call that
  listens is settled, any other is left alone.
\<close>

definition settle :: "startPhase \<Rightarrow> startPhase \<Rightarrow> startPhase" where
  "settle new p = (if p = Listening then new else p)"

text \<open>
  The listeners of the calls \<open>js\<close> of \<^verbatim>\<open>start()\<close>
  run, those of the other calls do not.
\<close>

definition settleAt :: "nat list \<Rightarrow> startPhase \<Rightarrow> startPhase list \<Rightarrow> startPhase list" where
  "settleAt js new ps = map (\<lambda>j. if j \<in> set js then settle new (ps ! j) else ps ! j) [0..<length ps]"

text \<open>
  Every rejected call of \<^verbatim>\<open>start()\<close> was rejected by a Service
  (an error of \<open>E\<close>) or by the exit listener, with the error built from an
  emitted exit status.
\<close>

definition failsOk :: "platform \<Rightarrow> error set \<Rightarrow> Launcher \<Rightarrow> bool" where
  "failsOk P E l =
     (\<forall>e. Failed e \<in> set (phases l) \<longrightarrow>
          e \<in> E \<or> (\<exists>st \<in> set (exitsOf (trace l)).
                       e = BackendExitedError_new (serviceExitStatusMessage P) st))"

text \<open>
  The API port: it is unset while the wallet's process description is being computed;
  while it is unset no socket exists and no ready notification has been emitted; every
  ready notification carries the port.
\<close>

definition portInv :: "Launcher \<Rightarrow> bool" where
  "portInv l =
     ((awaitingGetPort l \<longrightarrow> startNode l \<noteq> Pending)
      \<and> (startNode l = Pending \<or> awaitingGetPort l \<longrightarrow> apiPort l = 0)
      \<and> (apiPort l = 0 \<longrightarrow> (\<forall>c \<in> set (startCalls l). sockets c = 0) \<and> readysOf (trace l) = [])
      \<and> (\<forall>api \<in> set (readysOf (trace l)). api = V2Api (apiPort l)))"

text \<open>
  The readiness wait of a call has succeeded.
\<close>

definition isReady :: "startCall \<Rightarrow> bool" where
  "isReady c = (waitApi c = ApiReady)"

text \<open>
  Ready notifications are counted by the readiness waits that succeeded; a call that has
  not yet reached \<^verbatim>\<open>waitForApi\<close> has no readiness wait.
\<close>

definition countInv :: "Launcher \<Rightarrow> bool" where
  "countInv l =
     (length (readysOf (trace l)) = length (filter isReady (startCalls l))
      \<and> (\<forall>c \<in> set (startCalls l).
            phase c = AwaitNode \<or> phase c = AwaitWallet \<longrightarrow> waitApi c = NotPolling))"

text \<open>
  The ready notifications emitted so far.
\<close>

definition readys :: "Launcher \<Rightarrow> Api list" where
  "readys l = readysOf (trace l)"

text \<open>
  A resolved call of \<^verbatim>\<open>start()\<close> holds the payload of an emitted
  ready notification.
\<close>

definition resolvedInv :: "Launcher \<Rightarrow> bool" where
  "resolvedInv l = (\<forall>a. Resolved a \<in> set (phases l) \<longrightarrow> a \<in> set (readys l))"

text \<open>
  No call of \<^verbatim>\<open>walletService.start()\<close> precedes the first
  confirmation of the node's spawn.
\<close>

definition spawnOrder :: "nat \<Rightarrow> effect list \<Rightarrow> bool" where
  "spawnOrder i tr =
     (precededBy (ServiceStarted NodeSvc i) (ServiceStart WalletSvc i) tr
      \<and> (ServiceStart WalletSvc i \<in> set tr \<longrightarrow> ServiceStarted NodeSvc i \<in> set tr))"

text \<open>
  \<^verbatim>\<open>walletExe\<close> has been called only if the node's process
  description has been computed.
\<close>

definition describedAfterNode :: "Launcher \<Rightarrow> bool" where
  "describedAfterNode l =
     (CallWalletExe \<in> set (trace l) \<longrightarrow> (\<exists>startService. startNode l = Fulfilled startService))"

text \<open>
  The configuration is \<open>c\<close>, the API port is unset and the wallet's process
  description has not been computed.
\<close>

definition portUnset :: "LaunchConfig \<Rightarrow> Launcher \<Rightarrow> bool" where
  "portUnset c l =
     (config l = c \<and> apiPort l = 0 \<and> (\<forall>ws. startWallet l \<noteq> Fulfilled ws))"

text \<open>
  The ports that \<^verbatim>\<open>walletExe\<close> can choose: the configured one, or
  else one of those that \<^verbatim>\<open>getPort()\<close> has returned
  (\<open>F\<close>).
\<close>

definition allowedPorts :: "LaunchConfig \<Rightarrow> nat set \<Rightarrow> nat set" where
  "allowedPorts c F = (case configApiPort c of Some p \<Rightarrow> {p} | None \<Rightarrow> F)"

text \<open>
  The recorded API port, once set, is one of the allowed ports.
\<close>

definition portSource :: "LaunchConfig \<Rightarrow> nat set \<Rightarrow> Launcher \<Rightarrow> bool" where
  "portSource c F l = (config l = c \<and> (apiPort l \<noteq> 0 \<longrightarrow> apiPort l \<in> allowedPorts c F))"

text \<open>
  The ports that \<^verbatim>\<open>getPort()\<close> returned in an execution.
\<close>

fun freePorts :: "event list \<Rightarrow> nat list" where
  "freePorts [] = []"
| "freePorts (GetPortSettled (Inr p) # evs) = p # freePorts evs"
| "freePorts (_ # evs) = freePorts evs"

text \<open>
  The value of a decimal digit.
\<close>

definition digitValue :: "char \<Rightarrow> nat" where
  "digitValue ch = of_char ch - 48"

text \<open>
  The number that a string of decimal digits denotes, most significant digit first. It
  is the reference against which the rendering \<open>numberToString\<close> is stated:
  a string of digits without a leading zero that denotes \<open>p\<close> is the decimal
  numeral of \<open>p\<close>.
\<close>

definition decimalValue :: "string \<Rightarrow> nat" where
  "decimalValue s = foldl (\<lambda>a ch. 10 * a + digitValue ch) 0 s"

text \<open>
  A decimal digit.
\<close>

definition isDigit :: "char \<Rightarrow> bool" where
  "isDigit ch = (ch \<in> set ''0123456789'')"

text \<open>
  The node process exits while \<^verbatim>\<open>start()\<close> awaits
  \<^verbatim>\<open>walletService.start()\<close>: \<^verbatim>\<open>start()\<close>
  is called, the node's spawn is confirmed and
  \<^verbatim>\<open>walletService.start()\<close> is called; the node Service reports
  \<open>Stopping\<close> and \<open>Stopped\<close>, whose listener calls
  \<^verbatim>\<open>Launcher.stop()\<close>; both Services answer it with
  \<open>w\<close> and \<open>n\<close>; then
  \<^verbatim>\<open>walletService.start()\<close> is fulfilled and the interval timer
  of the readiness wait fires.
\<close>

definition nodeExitsEarly :: "ServiceExitStatus \<Rightarrow> ServiceExitStatus \<Rightarrow> event list" where
  "nodeExitsEarly w n =
     [CallStart, StatusChanged NodeSvc Started, StartResumed 0 None,
      StatusChanged NodeSvc Stopping, StatusChanged NodeSvc Stopped, ServicesStopped 0 w n,
      StartResumed 0 None, PollTick 0]"

text \<open>
  The exit gate is closed and call \<open>i\<close> of
  \<^verbatim>\<open>start()\<close> listens or is resolved.
\<close>

definition unrejected :: "nat \<Rightarrow> Launcher \<Rightarrow> bool" where
  "unrejected i l =
     (exited l \<and> i < length (phases l)
      \<and> (case phases l ! i of Listening \<Rightarrow> True | Resolved a \<Rightarrow> True | _ \<Rightarrow> False))"




section \<open>Exit aggregation\<close>

lemma foldl_first_Some:
  "foldl (\<lambda>res status. if res = None then f status else res) (Some c) ss = Some c"
  by (induction ss) simp_all

lemma foldl_code_firstCode:
  "foldl (\<lambda>res status. if res = None then code status else res) None ss = firstCode ss"
proof (induction ss)
  case Nil
  show ?case by simp
next
  case (Cons s ss)
  show ?case
  proof (cases "code s")
    case None
    with Cons show ?thesis by simp
  next
    case (Some c)
    then show ?thesis by (simp add: foldl_first_Some)
  qed
qed

lemma foldl_signal_anySignal:
  "(foldl (\<lambda>res status. if res = None then signal status else res) None ss = None)
     = (\<not> anySignal ss)"
proof (induction ss)
  case Nil
  show ?case by (simp add: anySignal_def)
next
  case (Cons s ss)
  show ?case
  proof (cases "signal s")
    case None
    with Cons show ?thesis by (simp add: anySignal_def)
  next
    case (Some g)
    then show ?thesis by (simp add: foldl_first_Some anySignal_def)
  qed
qed

text \<open>
  C3. For every ordered list of exit statuses, \<open>combineStatus\<close> returns the first
  non-null code in list order (code 0 included); when every code is null it returns 127
  if some entry has a non-null signal and 0 otherwise. The four examples of the
  specification follow, an omitted field being null.
\<close>

theorem combineStatus_first_code:
  "combineStatus ss = combine_spec ss
   \<and> combineStatus [\<lparr>exe = e1, code = Some 0, signal = None, err = None\<rparr>,
                    \<lparr>exe = e2, code = Some 1, signal = None, err = None\<rparr>] = 0
   \<and> combineStatus [\<lparr>exe = e1, code = None, signal = None, err = None\<rparr>,
                    \<lparr>exe = e2, code = Some 1, signal = None, err = None\<rparr>] = 1
   \<and> combineStatus [\<lparr>exe = e1, code = None, signal = Some ''KILL'', err = None\<rparr>,
                    \<lparr>exe = e2, code = None, signal = None, err = None\<rparr>] = 127
   \<and> combineStatus [\<lparr>exe = e1, code = None, signal = None, err = None\<rparr>,
                    \<lparr>exe = e2, code = None, signal = None, err = None\<rparr>] = 0"
proof -
  have general: "combineStatus xs = combine_spec xs" for xs
  proof (cases "firstCode xs")
    case None
    then show ?thesis
      using foldl_signal_anySignal [of xs]
      by (cases "foldl (\<lambda>res status. if res = None then signal status else res) None xs")
         (simp_all add: combineStatus_def combine_spec_def foldl_code_firstCode)
  next
    case (Some c)
    then show ?thesis
      by (simp add: combineStatus_def combine_spec_def foldl_code_firstCode)
  qed
  show ?thesis
    by (simp add: general combine_spec_def anySignal_def)
qed

theorem combineStatus_first_code_witness:
  "combineStatus [\<lparr>exe = ''cardano-wallet'', code = None, signal = None, err = None\<rparr>,
                  \<lparr>exe = ''cardano-node'', code = Some 0, signal = Some ''TERM'', err = None\<rparr>,
                  \<lparr>exe = ''other'', code = Some 3, signal = None, err = None\<rparr>] = 0"
  using combineStatus_first_code
    [of "[\<lparr>exe = ''cardano-wallet'', code = None, signal = None, err = None\<rparr>,
          \<lparr>exe = ''cardano-node'', code = Some 0, signal = Some ''TERM'', err = None\<rparr>,
          \<lparr>exe = ''other'', code = Some 3, signal = None, err = None\<rparr>]"]
  by (simp add: combine_spec_def)

section \<open>The exit notification\<close>

lemma exitsOf_append: "exitsOf (xs @ ys) = exitsOf xs @ exitsOf ys"
  by (induction xs rule: exitsOf.induct) simp_all

lemma readysOf_append: "readysOf (xs @ ys) = readysOf xs @ readysOf ys"
  by (induction xs rule: readysOf.induct) simp_all

lemma exitView_walletSettled: "exitView (walletSettled r l) = exitView l"
  by (cases r) (simp_all add: exitView_def walletSettled_def exitsOf_append)

lemma exitView_nodeSettled: "exitView (nodeSettled P r l) = exitView l"
  by (simp add: nodeSettled_def Let_def exitView_walletSettled split: sum.splits option.splits)
     (simp add: exitView_def exitsOf_append)

lemma exitView_getPortSettled: "exitView (getPortSettled P r l) = exitView l"
  by (simp add: getPortSettled_def exitView_walletSettled) (simp add: exitView_def)

lemma exitView_start: "exitView (Launcher_start l) = exitView l"
  by (simp add: exitView_def Launcher_start_def exitsOf_append)

lemma exitView_startResumed: "exitView (startResumed i r l) = exitView l"
  by (simp add: exitView_def startResumed_def Let_def exitsOf_append
           split: startPhase.splits option.splits)

lemma exitView_poll: "exitView (poll i l) = exitView l"
  by (simp add: exitView_def poll_def Let_def exitsOf_append)

lemma exitView_socketConnected: "exitView (socketConnected i l) = exitView l"
  by (simp add: exitView_def socketConnected_def emitReady_def Let_def exitsOf_append)

lemma exitView_signalReceived: "exitView (signalReceived l) = exitView l"
  by (simp add: exitView_def signalReceived_def exitsOf_append)

lemma exitView_stop:
  "exitView (Launcher_stop t l) = (exited l, stopCalls l @ [StopPending], exitsOf (trace l))"
  by (simp add: exitView_def Launcher_stop_def Let_def exitsOf_append)

lemma exitView_statusChanged:
  "exitView (statusChanged sv st l) =
     (exited l, stopCalls l @ (if st = Stopped then [StopPending] else []), exitsOf (trace l))"
  by (cases sv) (simp_all add: exitView_def statusChanged_def Launcher_stop_def Let_def exitsOf_append)

lemma exitView_servicesStopped:
  "exitView (servicesStopped P k w n l) =
     (if k < length (stopCalls l) \<and> stopCalls l ! k = StopPending
      then (True, (stopCalls l)[k := StopDone \<lparr>wallet = w, node = n\<rparr>],
            exitsOf (trace l) @ (if exited l then [] else [\<lparr>wallet = w, node = n\<rparr>]))
      else exitView l)"
  by (simp add: exitView_def servicesStopped_def emitExit_def Let_def exitsOf_append)

lemma exitView_exitListenerThrows:
  "exitView (exitListenerThrows P k w n js e l) =
     (if k < length (stopCalls l) \<and> stopCalls l ! k = StopPending \<and> \<not> exited l
      then (False, (stopCalls l)[k := StopFailed e], exitsOf (trace l) @ [\<lparr>wallet = w, node = n\<rparr>])
      else exitView l)"
  by (simp add: exitView_def exitListenerThrows_def emitExitTo_def Let_def exitsOf_append)

lemma listenersReturn_Cons:
  "listenersReturn (e # evs) = (listenersReturn [e] \<and> listenersReturn evs)"
  by (cases e) simp_all

lemma listenersReturn_append:
  "listenersReturn (xs @ ys) = (listenersReturn xs \<and> listenersReturn ys)"
  by (induction xs rule: listenersReturn.induct) simp_all

lemma exitGate_init: "exitGate (exitView (Launcher_init c))"
  by (simp add: exitGate_def exitView_def Launcher_init_def)

lemma exitGate_step:
  assumes "exitGate (exitView l)" and "listenersReturn [e]"
  shows "exitGate (exitView (step P e l))"
proof -
  obtain ex calls exits where v: "exitView l = (ex, calls, exits)"
    by (cases "exitView l")
  from v have f: "exited l = ex" "stopCalls l = calls" "exitsOf (trace l) = exits"
    by (simp_all add: exitView_def)
  from assms v have g: "length exits = (if ex then 1 else 0)"
    and h: "ex = (\<exists>s \<in> set calls. s \<noteq> StopPending)"
    by (simp_all add: exitGate_def)
  show ?thesis
  proof (cases e)
    case (ServicesStopped k w n)
    show ?thesis
    proof (cases "k < length calls \<and> calls ! k = StopPending")
      case True
      then have "StopDone \<lparr>wallet = w, node = n\<rparr> \<in> set (calls[k := StopDone \<lparr>wallet = w, node = n\<rparr>])"
        by (simp add: set_update_memI)
      then have "\<exists>s \<in> set (calls[k := StopDone \<lparr>wallet = w, node = n\<rparr>]). s \<noteq> StopPending"
        by blast
      with True g show ?thesis
        by (simp add: ServicesStopped exitView_servicesStopped f exitGate_def)
    next
      case False
      with assms show ?thesis
        by (auto simp add: ServicesStopped exitView_servicesStopped f)
    qed
  next
    case (CallStop t)
    with g h show ?thesis
      by (simp add: exitView_stop f exitGate_def)
  next
    case (StatusChanged sv st)
    with g h show ?thesis
      by (auto simp add: exitView_statusChanged f exitGate_def)
  qed (use assms in \<open>simp_all add: exitView_nodeSettled exitView_getPortSettled exitView_start
        exitView_startResumed exitView_poll exitView_socketConnected exitView_signalReceived\<close>)
qed

lemma exitGate_run:
  "exitGate (exitView l) \<Longrightarrow> listenersReturn evs \<Longrightarrow> exitGate (exitView (run P evs l))"
proof (induction evs arbitrary: l)
  case Nil
  then show ?case by (simp add: run_def)
next
  case (Cons e evs)
  from Cons.prems(2) have a: "listenersReturn [e]" and b: "listenersReturn evs"
    using listenersReturn_Cons [of e evs] by simp_all
  from exitGate_step [OF Cons.prems(1) a] have "exitGate (exitView (step P e l))" .
  from Cons.IH [OF this b] show ?case by (simp add: run_def)
qed

lemma exitView_step_mono:
  "exited l \<Longrightarrow> exited (step P e l)"
  "length (stopCalls l) \<le> length (stopCalls (step P e l))"
proof -
  have v: "exited l' = fst (exitView l')" "stopCalls l' = fst (snd (exitView l'))" for l'
    by (simp_all add: exitView_def)
  show "exited l \<Longrightarrow> exited (step P e l)"
    unfolding v
    by (cases e)
       (simp_all add: exitView_nodeSettled exitView_getPortSettled exitView_start
          exitView_startResumed exitView_poll exitView_socketConnected exitView_signalReceived
          exitView_stop exitView_statusChanged exitView_servicesStopped
          exitView_exitListenerThrows,
        simp_all add: exitView_def)
  show "length (stopCalls l) \<le> length (stopCalls (step P e l))"
    unfolding v
    by (cases e)
       (simp_all add: exitView_nodeSettled exitView_getPortSettled exitView_start
          exitView_startResumed exitView_poll exitView_socketConnected exitView_signalReceived
          exitView_stop exitView_statusChanged exitView_servicesStopped
          exitView_exitListenerThrows,
        simp_all add: exitView_def)
qed

lemma exited_run: "exited l \<Longrightarrow> exited (run P evs l)"
  unfolding run_def by (induction evs arbitrary: l) (simp_all add: exitView_step_mono)

lemma exited_servicesStopped:
  "k < length (stopCalls l) \<Longrightarrow> exitGate (exitView l) \<Longrightarrow> exited (servicesStopped P k w n l)"
proof -
  assume k: "k < length (stopCalls l)" and g: "exitGate (exitView l)"
  have "fst (exitView (servicesStopped P k w n l))"
  proof (cases "stopCalls l ! k = StopPending")
    case True
    with k show ?thesis by (simp add: exitView_servicesStopped)
  next
    case False
    with k have "\<exists>s \<in> set (stopCalls l). s \<noteq> StopPending"
      using nth_mem by blast
    with g False show ?thesis
      by (simp add: exitView_servicesStopped) (simp add: exitGate_def exitView_def)
  qed
  then show ?thesis by (simp add: exitView_def)
qed

lemma exited_after_completion:
  "ServicesStopped k w n \<in> set evs \<Longrightarrow> k < length (stopCalls l) \<Longrightarrow> exitGate (exitView l)
     \<Longrightarrow> listenersReturn evs \<Longrightarrow> exited (run P evs l)"
proof (induction evs arbitrary: l)
  case Nil
  then show ?case by simp
next
  case (Cons e evs)
  have len: "k < length (stopCalls (step P e l))"
    using Cons.prems(2) exitView_step_mono(2) [of l P e] by simp
  from Cons.prems(4) have a: "listenersReturn [e]" and b: "listenersReturn evs"
    using listenersReturn_Cons [of e evs] by simp_all
  have gate: "exitGate (exitView (step P e l))"
    using Cons.prems(3) a by (rule exitGate_step)
  show ?case
  proof (cases "e = ServicesStopped k w n")
    case True
    then have "exited (step P e l)"
      using Cons.prems by (simp add: exited_servicesStopped)
    then show ?thesis
      using exited_run [of "step P e l" P evs] by (simp add: run_def)
  next
    case False
    with Cons.prems(1) have "ServicesStopped k w n \<in> set evs" by simp
    from Cons.IH [OF this len gate b] show ?thesis by (simp add: run_def)
  qed
qed

text \<open>
  While every listener of \<open>exit\<close> returns, the exit notification is emitted at most once,
  however many calls of \<open>stop()\<close> there are and however they interleave: it has been
  emitted exactly once when some call of \<open>stop()\<close> has completed and not at all before,
  and four calls in progress together, completed in any order \<open>ks\<close>, yield exactly one.
\<close>

lemma exit_once_when_listeners_return:
  assumes "listenersReturn evs"
  shows "length (exitsOf (trace (run P evs (Launcher_init c)))) \<le> 1"
    and "length (exitsOf (trace (run P evs (Launcher_init c))))
       = (if \<exists>s \<in> set (stopCalls (run P evs (Launcher_init c))). s \<noteq> StopPending then 1 else 0)"
    and "set ks = {0, 1, 2, 3} \<Longrightarrow>
        length (exitsOf (trace (run P
          ([CallStop t1, CallStop t2, CallStop t3, CallStop t4]
           @ map (\<lambda>k. ServicesStopped k (w k) (n k)) ks @ evs) (Launcher_init c)))) = 1"
proof -
  have gate: "exitGate (exitView (run P es (Launcher_init c)))" if "listenersReturn es" for es
    using exitGate_init that by (rule exitGate_run)
  have count: "length (exitsOf (trace (run P es (Launcher_init c))))
       = (if \<exists>s \<in> set (stopCalls (run P es (Launcher_init c))). s \<noteq> StopPending then 1 else 0)"
    and ex: "length (exitsOf (trace (run P es (Launcher_init c))))
       = (if exited (run P es (Launcher_init c)) then 1 else 0)" if "listenersReturn es" for es
    using gate [OF that] by (simp_all add: exitGate_def exitView_def)
  from count [OF assms]
  show "length (exitsOf (trace (run P evs (Launcher_init c)))) \<le> 1"
    and "length (exitsOf (trace (run P evs (Launcher_init c))))
       = (if \<exists>s \<in> set (stopCalls (run P evs (Launcher_init c))). s \<noteq> StopPending then 1 else 0)"
    by simp_all
  show "length (exitsOf (trace (run P
          ([CallStop t1, CallStop t2, CallStop t3, CallStop t4]
           @ map (\<lambda>k. ServicesStopped k (w k) (n k)) ks @ evs) (Launcher_init c)))) = 1"
    if ks: "set ks = {0, 1, 2, 3}"
  proof -
    let ?l4 = "run P [CallStop t1, CallStop t2, CallStop t3, CallStop t4] (Launcher_init c)"
    let ?rest = "map (\<lambda>k. ServicesStopped k (w k) (n k)) ks @ evs"
    have lr: "listenersReturn ?rest"
      using assms by (induction ks) (simp_all add: listenersReturn_append)
    have len: "length (stopCalls ?l4) = 4"
      by (simp add: run_def Launcher_stop_def Launcher_init_def Let_def)
    from ks have "(0::nat) \<in> set ks" by simp
    then have "ServicesStopped 0 (w 0) (n 0) \<in> set ?rest" by force
    moreover have "0 < length (stopCalls ?l4)" using len by simp
    moreover have "exitGate (exitView ?l4)"
      by (rule gate) simp
    ultimately have "exited (run P ?rest ?l4)"
      using lr by (rule exited_after_completion)
    moreover have "run P ?rest ?l4
        = run P ([CallStop t1, CallStop t2, CallStop t3, CallStop t4] @ ?rest) (Launcher_init c)"
      by (simp add: run_def)
    moreover have "listenersReturn ([CallStop t1, CallStop t2, CallStop t3, CallStop t4] @ ?rest)"
      using lr by simp
    ultimately show ?thesis using ex by simp
  qed
qed

text \<open>
  C1, at a failing input. A listener of \<open>exit\<close> throws \<open>e\<close>, and two calls of \<open>stop()\<close>
  are in progress. The Services answer the first: the notification is emitted and the
  exception leaves the callback before \<^verbatim>\<open>this.exited = true\<close>, so the gate stays open and
  the promise of that call is rejected with \<open>e\<close>. The Services answer the second: the
  notification is emitted again, whether the listener throws again (the gate is open
  still) or returns. The trace holds two exit notifications, where the claim allows
  one.
\<close>

theorem exit_fires_again_after_listener_throws:
  "exitsOf (trace (run P [CallStop t1, CallStop t2, ExitListenerThrows 0 w n js e,
                          ExitListenerThrows 1 w n js e] (Launcher_init c)))
     = [\<lparr>wallet = w, node = n\<rparr>, \<lparr>wallet = w, node = n\<rparr>]
   \<and> stopCalls (run P [CallStop t1, CallStop t2, ExitListenerThrows 0 w n js e,
                        ExitListenerThrows 1 w n js e] (Launcher_init c))
     = [StopFailed e, StopFailed e]
   \<and> \<not> exited (run P [CallStop t1, CallStop t2, ExitListenerThrows 0 w n js e,
                         ExitListenerThrows 1 w n js e] (Launcher_init c))
   \<and> exitsOf (trace (run P [CallStop t1, CallStop t2, ExitListenerThrows 0 w n js e,
                          ServicesStopped 1 w n] (Launcher_init c)))
     = [\<lparr>wallet = w, node = n\<rparr>, \<lparr>wallet = w, node = n\<rparr>]
   \<and> stopCalls (run P [CallStop t1, CallStop t2, ExitListenerThrows 0 w n js e,
                        ServicesStopped 1 w n] (Launcher_init c))
     = [StopFailed e, StopDone \<lparr>wallet = w, node = n\<rparr>]
   \<and> length (exitsOf (trace (run examplePlatform
         [CallStop None, CallStop None,
          ExitListenerThrows 0 (exitOk ''cardano-wallet'') (exitOk ''cardano-node'') []
            (Error ''listener failed''),
          ExitListenerThrows 1 (exitOk ''cardano-wallet'') (exitOk ''cardano-node'') []
            (Error ''listener failed'')]
         (Launcher_init shelleyConfig)))) = 2"
  by (simp add: run_def Launcher_stop_def exitListenerThrows_def emitExitTo_def
        servicesStopped_def emitExit_def Launcher_init_def Let_def)

section \<open>The readiness prober\<close>

lemma stopWaiting_iff:
  "stopWaiting l = (nodeStatus l = Stopping \<or> nodeStatus l = Stopped
                    \<or> walletStatus l = Stopping \<or> walletStatus l = Stopped)"
  by (cases "nodeStatus l"; cases "walletStatus l") (simp_all add: stopWaiting_def)

lemma poll_idle:
  "apiPort l = 0 \<Longrightarrow> \<not> stopWaiting l \<Longrightarrow> poll i l = l"
  by (simp add: poll_def Let_def)

lemma poll_idle_funpow:
  "apiPort l = 0 \<Longrightarrow> \<not> stopWaiting l \<Longrightarrow> (poll i ^^ m) l = l"
  by (induction m) (simp_all add: poll_idle)

lemma connectsOk_append:
  "connectsOk (xs @ ys) = (connectsOk xs \<and> connectsOk ys)"
  by (auto simp: connectsOk_def)

lemma connectsOk_step: "connectsOk (trace l) \<Longrightarrow> connectsOk (trace (step P e l))"
proof (cases e)
  case (NodeSettled r)
  assume "connectsOk (trace l)"
  then show ?thesis
    by (auto simp: NodeSettled nodeSettled_def walletSettled_def Let_def connectsOk_append
                   connectsOk_def split: sum.splits option.splits)
next
  case (GetPortSettled r')
  assume "connectsOk (trace l)"
  then show ?thesis
    by (auto simp: GetPortSettled getPortSettled_def walletSettled_def connectsOk_append
                   connectsOk_def split: sum.splits)
next
  case CallStart
  assume "connectsOk (trace l)"
  then show ?thesis
    by (simp add: CallStart Launcher_start_def connectsOk_append) (simp add: connectsOk_def)
next
  case (StartResumed i r)
  assume "connectsOk (trace l)"
  then show ?thesis
    by (auto simp: StartResumed startResumed_def Let_def connectsOk_append connectsOk_def
             split: startPhase.splits option.splits)
next
  case (PollTick i)
  assume "connectsOk (trace l)"
  then show ?thesis
    by (auto simp: PollTick poll_def Let_def connectsOk_append connectsOk_def)
next
  case (SocketConnected i)
  assume "connectsOk (trace l)"
  then show ?thesis
    by (auto simp: SocketConnected socketConnected_def emitReady_def Let_def connectsOk_append
                   connectsOk_def)
next
  case (CallStop t)
  assume "connectsOk (trace l)"
  then show ?thesis
    by (auto simp: CallStop Launcher_stop_def Let_def connectsOk_append connectsOk_def)
next
  case (ServicesStopped k w n)
  assume "connectsOk (trace l)"
  then show ?thesis
    by (auto simp: ServicesStopped servicesStopped_def emitExit_def Let_def connectsOk_append
                   connectsOk_def)
next
  case (ExitListenerThrows k w n js x)
  assume "connectsOk (trace l)"
  then show ?thesis
    by (auto simp: ExitListenerThrows exitListenerThrows_def emitExitTo_def Let_def
                   connectsOk_append connectsOk_def)
next
  case (StatusChanged sv st)
  assume "connectsOk (trace l)"
  then show ?thesis
    by (cases sv)
       (auto simp: StatusChanged statusChanged_def Launcher_stop_def Let_def connectsOk_append
                   connectsOk_def)
next
  case SignalReceived
  assume "connectsOk (trace l)"
  then show ?thesis
    by (auto simp: SignalReceived signalReceived_def connectsOk_append connectsOk_def)
qed

lemma connectsOk_run: "connectsOk (trace l) \<Longrightarrow> connectsOk (trace (run P evs l))"
  unfolding run_def by (induction evs arbitrary: l) (simp_all add: connectsOk_step)

text \<open>
  C8. For a readiness wait in progress (timer running, promise pending): while the
  port is unknown (0) and the stop-predicate is false, any number \<open>m\<close> of poll ticks leaves the
  whole state as it is (no connection attempt, the promise neither resolved nor rejected,
  the timer still running); when the stop-predicate is true the tick clears the timer and
  rejects the wait with the error "Polling stopped", without a connection attempt; once the
  port is known and the stop-predicate is false the tick makes one connection attempt to
  that port on 127.0.0.1 and the wait goes on. In every execution, no connection attempt
  goes to port 0.
\<close>

theorem poll_tolerates_unknown_port:
  assumes "i < length (startCalls l)"
    and "timer (startCalls l ! i)"
    and "waitApi (startCalls l ! i) = Polling"
  shows "(apiPort l = 0 \<and> \<not> stopWaiting l \<longrightarrow> (poll i ^^ m) l = l)
    \<and> (stopWaiting l \<longrightarrow>
         startCalls (poll i l) ! i
           = (startCalls l ! i)\<lparr>timer := False, waitApi := PollingFailed (Error ''Polling stopped'')\<rparr>
         \<and> trace (poll i l) = trace l @ [ConsoleError ''Polling stopped''])
    \<and> (apiPort l \<noteq> 0 \<and> \<not> stopWaiting l \<longrightarrow>
         startCalls (poll i l) ! i = (startCalls l ! i)\<lparr>sockets := sockets (startCalls l ! i) + 1\<rparr>
         \<and> trace (poll i l) = trace l @ [SocketConnect (apiPort l) ''127.0.0.1''])
    \<and> connectsOk (trace (run P evs (Launcher_init c)))"
proof -
  have "connectsOk (trace (run P evs (Launcher_init c)))"
    by (rule connectsOk_run) (simp add: connectsOk_def Launcher_init_def)
  with assms show ?thesis
    by (simp add: poll_idle_funpow) (simp add: poll_def Let_def)
qed

section \<open>Calls of start() along an execution\<close>

lemma phases_walletSettled: "phases (walletSettled r l) = phases l"
  by (cases r) (simp_all add: phases_def walletSettled_def)

lemma phases_nodeSettled: "phases (nodeSettled P r l) = phases l"
  by (simp add: nodeSettled_def Let_def phases_walletSettled split: sum.splits option.splits)
     (simp add: phases_def)

lemma phases_getPortSettled: "phases (getPortSettled P r l) = phases l"
  by (simp add: getPortSettled_def phases_walletSettled) (simp add: phases_def)

lemma phases_start: "phases (Launcher_start l) = phases l @ [AwaitNode]"
  by (simp add: phases_def Launcher_start_def newStartCall_def)

lemma phases_startResumed:
  "phases (startResumed i r l) =
     (if i < length (phases l) \<and> phases l ! i = AwaitNode
      then (phases l)[i := (case r of Some e \<Rightarrow> Failed e | None \<Rightarrow> AwaitWallet)]
      else if i < length (phases l) \<and> phases l ! i = AwaitWallet
      then (phases l)[i := (case r of Some e \<Rightarrow> Failed e | None \<Rightarrow> Listening)]
      else phases l)"
  by (auto simp: phases_def startResumed_def Let_def map_update
           split: startPhase.splits option.splits)

lemma phases_poll: "phases (poll i l) = phases l"
  by (auto simp: phases_def poll_def Let_def map_update list_update_same_conv)

lemma phases_emitReady: "phases (emitReady api l) = map (settle (Resolved api)) (phases l)"
  by (simp add: phases_def emitReady_def settle_def comp_def if_distrib [of phase] cong: if_cong)

lemma phases_emitExit:
  "phases (emitExit P st l)
     = map (settle (Failed (BackendExitedError_new (serviceExitStatusMessage P) st))) (phases l)"
  by (simp add: phases_def emitExit_def settle_def comp_def if_distrib [of phase] cong: if_cong)

lemma phases_socketConnected:
  "phases (socketConnected i l) =
     (if i < length (startCalls l) \<and> 0 < sockets (startCalls l ! i)
         \<and> waitApi (startCalls l ! i) = Polling
      then map (settle (Resolved (getApi l))) (phases l)
      else phases l)"
  by (auto simp: socketConnected_def Let_def phases_emitReady getApi_def)
     (auto simp: phases_def map_update list_update_same_conv)

lemma phases_stop: "phases (Launcher_stop t l) = phases l"
  by (simp add: phases_def Launcher_stop_def Let_def)

lemma phases_statusChanged: "phases (statusChanged sv st l) = phases l"
  by (cases sv) (simp_all add: phases_def statusChanged_def Launcher_stop_def Let_def)

lemma phases_signalReceived: "phases (signalReceived l) = phases l"
  by (simp add: phases_def signalReceived_def)

lemma phases_servicesStopped:
  "phases (servicesStopped P k w n l) =
     (if k < length (stopCalls l) \<and> stopCalls l ! k = StopPending \<and> \<not> exited l
      then map (settle (Failed (BackendExitedError_new (serviceExitStatusMessage P)
                                  \<lparr>wallet = w, node = n\<rparr>))) (phases l)
      else phases l)"
  by (auto simp: servicesStopped_def Let_def)
     (simp_all add: phases_def emitExit_def settle_def comp_def if_distrib [of phase] cong: if_cong)

lemma length_settleAt: "length (settleAt js new ps) = length ps"
  by (simp add: settleAt_def)

lemma nth_settleAt:
  "j < length ps \<Longrightarrow> settleAt js new ps ! j = (if j \<in> set js then settle new (ps ! j) else ps ! j)"
  by (simp add: settleAt_def)

lemma phases_emitExitTo:
  "phases (emitExitTo P st js l)
     = settleAt js (Failed (BackendExitedError_new (serviceExitStatusMessage P) st)) (phases l)"
  by (rule nth_equalityI)
     (simp_all add: phases_def emitExitTo_def settleAt_def settle_def Let_def)

lemma emitExitTo_fields:
  "config (emitExitTo P st js l) = config l"
  "apiPort (emitExitTo P st js l) = apiPort l"
  "exited (emitExitTo P st js l) = exited l"
  "startNode (emitExitTo P st js l) = startNode l"
  "startWallet (emitExitTo P st js l) = startWallet l"
  "awaitingGetPort (emitExitTo P st js l) = awaitingGetPort l"
  "walletStatus (emitExitTo P st js l) = walletStatus l"
  "nodeStatus (emitExitTo P st js l) = nodeStatus l"
  "signalHandlers (emitExitTo P st js l) = signalHandlers l"
  "stopCalls (emitExitTo P st js l) = stopCalls l"
  "caughtStops (emitExitTo P st js l) = caughtStops l"
  "trace (emitExitTo P st js l) = trace l @ [EmitExit st]"
  "length (startCalls (emitExitTo P st js l)) = length (startCalls l)"
  by (simp_all add: emitExitTo_def)

lemma nth_emitExitTo:
  "j < length (startCalls l) \<Longrightarrow>
     startCalls (emitExitTo P st js l) ! j
       = (if j \<in> set js \<and> phase (startCalls l ! j) = Listening
          then (startCalls l ! j)\<lparr>phase := Failed (BackendExitedError_new (serviceExitStatusMessage P) st)\<rparr>
          else startCalls l ! j)"
  by (simp add: emitExitTo_def Let_def)

lemma in_emitExitTo:
  assumes "c \<in> set (startCalls (emitExitTo P st js l))"
  shows "\<exists>c0 \<in> set (startCalls l).
           c = c0 \<or> (phase c0 = Listening
              \<and> c = c0\<lparr>phase := Failed (BackendExitedError_new (serviceExitStatusMessage P) st)\<rparr>)"
proof -
  from assms obtain j where j: "j < length (startCalls l)"
    and c: "c = startCalls (emitExitTo P st js l) ! j"
    by (auto simp: in_set_conv_nth emitExitTo_fields)
  from j have "startCalls l ! j \<in> set (startCalls l)" by simp
  with c j show ?thesis
    by (auto simp: nth_emitExitTo split: if_splits)
qed

lemma length_filter_cong_map:
  "map Q xs = map Q ys \<Longrightarrow> length (filter Q xs) = length (filter Q ys)"
proof (induction xs arbitrary: ys)
  case Nil
  then show ?case by simp
next
  case (Cons x xs)
  then obtain y ys' where ys: "ys = y # ys'" by (cases ys) auto
  with Cons.prems have "Q x = Q y" and "map Q xs = map Q ys'" by simp_all
  with Cons.IH [of ys'] ys show ?case by simp
qed

lemma filter_emitExitTo:
  assumes "\<And>c x. Q (c\<lparr>phase := x\<rparr>) = Q c"
  shows "length (filter Q (startCalls (emitExitTo P st js l))) = length (filter Q (startCalls l))"
proof -
  have "map Q (startCalls (emitExitTo P st js l)) = map Q (startCalls l)"
    by (rule nth_equalityI) (simp_all add: emitExitTo_fields nth_emitExitTo assms)
  then show ?thesis by (rule length_filter_cong_map)
qed

lemma phases_exitListenerThrows:
  "phases (exitListenerThrows P k w n js e l) =
     (if k < length (stopCalls l) \<and> stopCalls l ! k = StopPending \<and> \<not> exited l
      then settleAt js (Failed (BackendExitedError_new (serviceExitStatusMessage P)
                                  \<lparr>wallet = w, node = n\<rparr>)) (phases l)
      else phases l)"
proof -
  have "phases (l'\<lparr>stopCalls := cs, trace := tr\<rparr>) = phases l'" for l' cs tr
    by (simp add: phases_def)
  then show ?thesis
    by (simp add: exitListenerThrows_def Let_def phases_emitExitTo)
qed

lemmas phases_step =
  phases_nodeSettled phases_getPortSettled phases_start phases_startResumed phases_poll
  phases_socketConnected phases_stop phases_statusChanged phases_signalReceived
  phases_servicesStopped phases_exitListenerThrows

lemmas exitView_step =
  exitView_nodeSettled exitView_getPortSettled exitView_start exitView_startResumed
  exitView_poll exitView_socketConnected exitView_signalReceived exitView_stop
  exitView_statusChanged exitView_servicesStopped exitView_exitListenerThrows

section \<open>Rejection of start()\<close>

lemma Failed_in_settle:
  "Failed e \<in> set (map (settle new) ps) \<Longrightarrow> Failed e \<in> set ps \<or> new = Failed e"
  by (auto simp: settle_def split: if_splits)

lemma Failed_in_settle_image:
  "(Failed e \<in> settle new ` A) = (Failed e \<in> A \<or> (new = Failed e \<and> Listening \<in> A))"
  by (auto simp: settle_def image_iff split: if_splits)

lemma Failed_in_update:
  "Failed e \<in> set (ps[i := x]) \<Longrightarrow> Failed e \<in> set ps \<or> x = Failed e"
  using set_update_subset_insert [of ps i x] by auto

lemma Failed_in_settleAt:
  "Failed e \<in> set (settleAt js new ps) \<Longrightarrow> Failed e \<in> set ps \<or> new = Failed e"
  by (auto simp: settleAt_def settle_def split: if_splits)

lemma exitsOf_exitView: "exitsOf (trace l) = snd (snd (exitView l))"
  by (simp add: exitView_def)

lemma failsOk_step:
  assumes "failsOk P E l"
  shows "failsOk P (E \<union> set (startRejections [e])) (step P e l)"
proof (cases e)
  case (StartResumed i r)
  show ?thesis
    unfolding failsOk_def
  proof (intro allI impI)
    fix x assume "Failed x \<in> set (phases (step P e l))"
    then have "Failed x \<in> set (phases l) \<or> r = Some x"
      by (auto simp: StartResumed phases_startResumed split: if_splits option.splits
               dest!: Failed_in_update)
    then show "x \<in> E \<union> set (startRejections [e]) \<or>
       (\<exists>st\<in>set (exitsOf (trace (step P e l))).
          x = BackendExitedError_new (serviceExitStatusMessage P) st)"
      using assms
      by (auto simp: StartResumed failsOk_def exitsOf_exitView exitView_startResumed)
  qed
next
  case (SocketConnected i)
  show ?thesis
    unfolding failsOk_def
  proof (intro allI impI)
    fix x assume "Failed x \<in> set (phases (step P e l))"
    then have "Failed x \<in> set (phases l)"
      by (auto simp: SocketConnected phases_socketConnected Failed_in_settle_image
               split: if_splits)
    then show "x \<in> E \<union> set (startRejections [e]) \<or>
       (\<exists>st\<in>set (exitsOf (trace (step P e l))).
          x = BackendExitedError_new (serviceExitStatusMessage P) st)"
      using assms
      by (auto simp: SocketConnected failsOk_def exitsOf_exitView exitView_socketConnected)
  qed
next
  case (ServicesStopped k w n)
  show ?thesis
    unfolding failsOk_def
  proof (intro allI impI)
    fix x assume a: "Failed x \<in> set (phases (step P e l))"
    show "x \<in> E \<union> set (startRejections [e]) \<or>
       (\<exists>st\<in>set (exitsOf (trace (step P e l))).
          x = BackendExitedError_new (serviceExitStatusMessage P) st)"
    proof (cases "k < length (stopCalls l) \<and> stopCalls l ! k = StopPending \<and> \<not> exited l")
      case True
      with a have "Failed x \<in> set (phases l)
          \<or> x = BackendExitedError_new (serviceExitStatusMessage P) \<lparr>wallet = w, node = n\<rparr>"
        by (auto simp: ServicesStopped phases_servicesStopped Failed_in_settle_image)
      with True assms show ?thesis
        by (auto simp: ServicesStopped failsOk_def exitsOf_exitView exitView_servicesStopped)
    next
      case False
      with a have "Failed x \<in> set (phases l)"
        by (auto simp: ServicesStopped phases_servicesStopped)
      with False assms show ?thesis
        by (auto simp: ServicesStopped failsOk_def exitsOf_exitView exitView_servicesStopped)
    qed
  qed
next
  case (ExitListenerThrows k w n js y)
  show ?thesis
    unfolding failsOk_def
  proof (intro allI impI)
    fix x assume a: "Failed x \<in> set (phases (step P e l))"
    show "x \<in> E \<union> set (startRejections [e]) \<or>
       (\<exists>st\<in>set (exitsOf (trace (step P e l))).
          x = BackendExitedError_new (serviceExitStatusMessage P) st)"
    proof (cases "k < length (stopCalls l) \<and> stopCalls l ! k = StopPending \<and> \<not> exited l")
      case True
      with a have "Failed x \<in> set (phases l)
          \<or> x = BackendExitedError_new (serviceExitStatusMessage P) \<lparr>wallet = w, node = n\<rparr>"
        by (auto simp: ExitListenerThrows phases_exitListenerThrows dest!: Failed_in_settleAt)
      with True assms show ?thesis
        by (auto simp: ExitListenerThrows failsOk_def exitsOf_exitView exitView_exitListenerThrows)
    next
      case False
      with a have "Failed x \<in> set (phases l)"
        by (auto simp: ExitListenerThrows phases_exitListenerThrows)
      with False assms show ?thesis
        by (auto simp: ExitListenerThrows failsOk_def exitsOf_exitView exitView_exitListenerThrows)
    qed
  qed
qed (use assms in \<open>auto simp: failsOk_def phases_step exitsOf_exitView exitView_step\<close>)

lemma startRejections_append:
  "startRejections (xs @ ys) = startRejections xs @ startRejections ys"
  by (induction xs rule: startRejections.induct) simp_all

lemma failsOk_run:
  "failsOk P E l \<Longrightarrow> failsOk P (E \<union> set (startRejections evs)) (run P evs l)"
proof (induction evs arbitrary: l E)
  case Nil
  then show ?case by (simp add: run_def)
next
  case (Cons e evs)
  from failsOk_step [OF Cons.prems, of e]
  have "failsOk P (E \<union> set (startRejections [e]) \<union> set (startRejections evs))
          (run P evs (step P e l))"
    by (rule Cons.IH)
  moreover have "startRejections (e # evs) = startRejections [e] @ startRejections evs"
    using startRejections_append [of "[e]" evs] by simp
  ultimately show ?case
    by (simp add: run_def Un_assoc)
qed

text \<open>
  C7. The message of a \<open>BackendExitedError\<close> is the wallet's line, a newline and the
  node's line, and the error holds the whole exit status. When the exit notification fires
  (the gate open, a call of \<open>stop()\<close> completing with \<open>w\<close> and \<open>n\<close>), every call of \<open>start()\<close>
  that waits for readiness is rejected with that error for \<open>{wallet = w, node = n}\<close>. In every
  execution, a rejected call of \<open>start()\<close> holds either an error with which a Service rejected
  \<open>start()\<close>, or the \<open>BackendExitedError\<close> of an exit status that was emitted.
\<close>

theorem start_rejects_with_BackendExitedError:
  "exitStatusMessage f st = f (wallet st) @ [CHR 0x0A] @ f (node st)
   \<and> BackendExitedError_new f st
       = BackendExitedError (f (wallet st) @ [CHR 0x0A] @ f (node st)) st
   \<and> (i < length (startCalls l) \<and> phase (startCalls l ! i) = Listening
        \<and> k < length (stopCalls l) \<and> stopCalls l ! k = StopPending \<and> \<not> exited l \<longrightarrow>
      phase (startCalls (servicesStopped P k w n l) ! i)
        = Failed (BackendExitedError
                    (serviceExitStatusMessage P w @ [CHR 0x0A] @ serviceExitStatusMessage P n)
                    \<lparr>wallet = w, node = n\<rparr>))
   \<and> (\<forall>e. Failed e \<in> set (map phase (startCalls (run P evs (Launcher_init c)))) \<longrightarrow>
          e \<in> set (startRejections evs)
          \<or> (\<exists>s \<in> set (exitsOf (trace (run P evs (Launcher_init c)))).
                e = BackendExitedError
                      (serviceExitStatusMessage P (wallet s) @ [CHR 0x0A]
                         @ serviceExitStatusMessage P (node s)) s))"
proof -
  have msg: "exitStatusMessage g s = g (wallet s) @ [CHR 0x0A] @ g (node s)" for g s
    by (simp add: exitStatusMessage_def)
  have new: "BackendExitedError_new g s
       = BackendExitedError (g (wallet s) @ [CHR 0x0A] @ g (node s)) s" for g s
    by (simp add: BackendExitedError_new_def msg)
  have one: "phase (startCalls (servicesStopped P k w n l) ! i)
        = Failed (BackendExitedError
                    (serviceExitStatusMessage P w @ [CHR 0x0A] @ serviceExitStatusMessage P n)
                    \<lparr>wallet = w, node = n\<rparr>)"
    if "i < length (startCalls l)" "phase (startCalls l ! i) = Listening"
       "k < length (stopCalls l)" "stopCalls l ! k = StopPending" "\<not> exited l"
  proof -
    have "phases (servicesStopped P k w n l) ! i
        = Failed (BackendExitedError_new (serviceExitStatusMessage P) \<lparr>wallet = w, node = n\<rparr>)"
      using that by (simp add: phases_servicesStopped) (simp add: phases_def settle_def)
    moreover have "i < length (startCalls (servicesStopped P k w n l))"
      using that(1) arg_cong [OF phases_servicesStopped [of P k w n l], of length]
      by (simp add: phases_def split: if_splits)
    ultimately show ?thesis
      by (simp add: phases_def new)
  qed
  have "failsOk P {} (Launcher_init c)"
    by (simp add: failsOk_def phases_def Launcher_init_def)
  from failsOk_run [OF this, of evs]
  have all: "\<forall>e. Failed e \<in> set (map phase (startCalls (run P evs (Launcher_init c)))) \<longrightarrow>
          e \<in> set (startRejections evs)
          \<or> (\<exists>s \<in> set (exitsOf (trace (run P evs (Launcher_init c)))).
                e = BackendExitedError
                      (serviceExitStatusMessage P (wallet s) @ [CHR 0x0A]
                         @ serviceExitStatusMessage P (node s)) s)"
    by (simp add: failsOk_def phases_def new)
  from msg new one all show ?thesis by blast
qed

lemma portInv_init: "portInv (Launcher_init c)"
  by (simp add: portInv_def Launcher_init_def)

section \<open>The ready notification\<close>

lemma in_set_updateD: "x \<in> set (xs[i := y]) \<Longrightarrow> x \<in> set xs \<or> x = y"
  using set_update_subset_insert [of xs i y] by auto

lemma portInv_walletSettled:
  "portInv l \<Longrightarrow> apiPort l = 0 \<Longrightarrow> startNode l \<noteq> Pending \<Longrightarrow> \<not> awaitingGetPort l
     \<Longrightarrow> portInv (walletSettled r l)"
  by (cases r) (auto simp: portInv_def walletSettled_def readysOf_append)

lemma portInv_nodeSettled: "portInv l \<Longrightarrow> portInv (nodeSettled P r l)"
proof -
  assume inv: "portInv l"
  show ?thesis
  proof (cases "startNode l = Pending")
    case False
    with inv show ?thesis by (simp add: nodeSettled_def)
  next
    case True
    with inv have z: "apiPort l = 0" "\<not> awaitingGetPort l"
      by (auto simp: portInv_def)
    show ?thesis
    proof (cases r)
      case (Inl e)
      have "portInv (l\<lparr>startNode := Rejected e\<rparr>)"
        using inv z by (auto simp: portInv_def)
      then show ?thesis
        using True z by (simp add: nodeSettled_def Inl portInv_walletSettled)
    next
      case (Inr ss)
      have a: "portInv (l\<lparr>startNode := Fulfilled ss, trace := trace l @ [CallWalletExe]\<rparr>)"
        using inv z by (auto simp: portInv_def readysOf_append)
      show ?thesis
      proof (cases "configApiPort (config l)")
        case None
        with a True z show ?thesis
          by (auto simp: nodeSettled_def Inr Let_def portInv_def readysOf_append)
      next
        case (Some p)
        with a True z show ?thesis
          by (simp add: nodeSettled_def Inr Let_def portInv_walletSettled)
      qed
    qed
  qed
qed

lemma portInv_getPortSettled: "portInv l \<Longrightarrow> portInv (getPortSettled P r l)"
proof -
  assume inv: "portInv l"
  show ?thesis
  proof (cases "awaitingGetPort l")
    case False
    with inv show ?thesis by (simp add: getPortSettled_def)
  next
    case True
    with inv have z: "apiPort l = 0" "startNode l \<noteq> Pending"
      by (auto simp: portInv_def)
    have "portInv (l\<lparr>awaitingGetPort := False\<rparr>)"
      using inv z by (auto simp: portInv_def)
    with True z show ?thesis
      by (simp add: getPortSettled_def portInv_walletSettled)
  qed
qed

lemma portInv_start: "portInv l \<Longrightarrow> portInv (Launcher_start l)"
  by (auto simp: portInv_def Launcher_start_def newStartCall_def readysOf_append)

lemma portInv_startResumed: "portInv l \<Longrightarrow> portInv (startResumed i r l)"
  by (auto simp: portInv_def startResumed_def Let_def readysOf_append
           split: startPhase.splits option.splits dest!: in_set_updateD)

lemma portInv_poll: "portInv l \<Longrightarrow> portInv (poll i l)"
  by (auto simp: portInv_def poll_def Let_def readysOf_append dest!: in_set_updateD)

lemma portInv_socketConnected: "portInv l \<Longrightarrow> portInv (socketConnected i l)"
proof -
  assume inv: "portInv l"
  show ?thesis
  proof (cases "i < length (startCalls l) \<and> 0 < sockets (startCalls l ! i)")
    case False
    with inv show ?thesis by (auto simp: socketConnected_def)
  next
    case True
    then have "startCalls l ! i \<in> set (startCalls l)" by simp
    with True inv have nz: "apiPort l \<noteq> 0"
      by (auto simp: portInv_def)
    with inv True show ?thesis
      by (auto simp: portInv_def socketConnected_def emitReady_def getApi_def Let_def
                     readysOf_append dest!: in_set_updateD)
  qed
qed

lemma portInv_stop: "portInv l \<Longrightarrow> portInv (Launcher_stop t l)"
  by (auto simp: portInv_def Launcher_stop_def Let_def readysOf_append)

lemma portInv_servicesStopped: "portInv l \<Longrightarrow> portInv (servicesStopped P k w n l)"
  by (auto simp: portInv_def servicesStopped_def emitExit_def Let_def readysOf_append)

lemma portInv_exitListenerThrows: "portInv l \<Longrightarrow> portInv (exitListenerThrows P k w n js e l)"
  by (auto simp: portInv_def exitListenerThrows_def emitExitTo_fields Let_def readysOf_append
           dest!: in_emitExitTo)

lemma portInv_statusChanged: "portInv l \<Longrightarrow> portInv (statusChanged sv st l)"
  by (cases sv) (auto simp: portInv_def statusChanged_def Launcher_stop_def Let_def readysOf_append)

lemma portInv_signalReceived: "portInv l \<Longrightarrow> portInv (signalReceived l)"
  by (auto simp: portInv_def signalReceived_def readysOf_append)

lemma portInv_step: "portInv l \<Longrightarrow> portInv (step P e l)"
  by (cases e)
     (simp_all add: portInv_nodeSettled portInv_getPortSettled portInv_start
        portInv_startResumed portInv_poll portInv_socketConnected portInv_stop
        portInv_servicesStopped portInv_exitListenerThrows portInv_statusChanged
        portInv_signalReceived)

lemma portInv_run: "portInv l \<Longrightarrow> portInv (run P evs l)"
  unfolding run_def by (induction evs arbitrary: l) (simp_all add: portInv_step)

lemma length_filter_update:
  "i < length xs \<Longrightarrow>
     length (filter Q (xs[i := x])) + (if Q (xs ! i) then 1 else 0)
       = length (filter Q xs) + (if Q x then 1 else 0)"
proof (induction xs arbitrary: i)
  case Nil
  then show ?case by simp
next
  case (Cons y ys)
  show ?case
  proof (cases i)
    case 0
    then show ?thesis by simp
  next
    case (Suc j)
    with Cons.prems have "j < length ys" by simp
    from Cons.IH [OF this] Suc show ?thesis by simp
  qed
qed

lemma length_filter_update_same:
  "i < length xs \<Longrightarrow> Q x = Q (xs ! i) \<Longrightarrow> length (filter Q (xs[i := x])) = length (filter Q xs)"
  using length_filter_update [of i xs Q x] by (simp split: if_splits)

lemma length_filter_update_new:
  "i < length xs \<Longrightarrow> Q x \<Longrightarrow> \<not> Q (xs ! i)
     \<Longrightarrow> length (filter Q (xs[i := x])) = Suc (length (filter Q xs))"
  using length_filter_update [of i xs Q x] by simp

lemma length_filter_map_same:
  "(\<And>c. Q (f c) = Q c) \<Longrightarrow> length (filter Q (map f xs)) = length (filter Q xs)"
  by (induction xs) simp_all

lemma countInv_init: "countInv (Launcher_init c)"
  by (simp add: countInv_def Launcher_init_def)

lemma countInv_walletSettled: "countInv l \<Longrightarrow> countInv (walletSettled r l)"
  by (cases r) (auto simp: countInv_def walletSettled_def readysOf_append)

lemma countInv_nodeSettled: "countInv l \<Longrightarrow> countInv (nodeSettled P r l)"
proof -
  assume inv: "countInv l"
  have a: "countInv (l\<lparr>startNode := x\<rparr>)" for x
    using inv by (simp add: countInv_def)
  have b: "countInv (l\<lparr>startNode := x, trace := trace l @ [CallWalletExe]\<rparr>)" for x
    using inv by (simp add: countInv_def readysOf_append)
  have c: "countInv (l\<lparr>startNode := x, trace := trace l @ [CallWalletExe],
                      awaitingGetPort := True,
                      trace := trace l @ [CallWalletExe] @ [CallGetPort]\<rparr>)" for x
    using inv by (simp add: countInv_def readysOf_append)
  show ?thesis
    using inv a b c
    by (auto simp: nodeSettled_def Let_def countInv_walletSettled
             split: sum.splits option.splits)
qed

lemma countInv_getPortSettled: "countInv l \<Longrightarrow> countInv (getPortSettled P r l)"
proof -
  assume inv: "countInv l"
  then have "countInv (l\<lparr>awaitingGetPort := False\<rparr>)"
    by (simp add: countInv_def)
  with inv show ?thesis
    by (simp add: getPortSettled_def countInv_walletSettled)
qed

lemma countInv_start: "countInv l \<Longrightarrow> countInv (Launcher_start l)"
  by (auto simp: countInv_def Launcher_start_def newStartCall_def readysOf_append isReady_def)

lemma countInv_startResumed: "countInv l \<Longrightarrow> countInv (startResumed i r l)"
proof -
  assume inv: "countInv l"
  show ?thesis
  proof (cases "i < length (startCalls l)")
    case False
    with inv show ?thesis by (simp add: startResumed_def)
  next
    case True
    then have mem: "startCalls l ! i \<in> set (startCalls l)" by simp
    with inv have np: "phase (startCalls l ! i) = AwaitNode \<or> phase (startCalls l ! i) = AwaitWallet
        \<Longrightarrow> waitApi (startCalls l ! i) = NotPolling"
      by (auto simp: countInv_def)
    show ?thesis
      using inv True np
      by (auto simp: countInv_def startResumed_def Let_def readysOf_append isReady_def
                     length_filter_update_same
               split: startPhase.splits option.splits dest!: in_set_updateD)
  qed
qed

lemma countInv_poll: "countInv l \<Longrightarrow> countInv (poll i l)"
  by (auto simp: countInv_def poll_def Let_def readysOf_append isReady_def
                 length_filter_update_same dest!: in_set_updateD)

lemma isReady_settle:
  "isReady \<circ> (\<lambda>c. if phase c = Listening then c\<lparr>phase := x\<rparr> else c) = isReady"
  by (auto simp: isReady_def fun_eq_iff)

lemma countInv_socketConnected: "countInv l \<Longrightarrow> countInv (socketConnected i l)"
proof -
  assume inv: "countInv l"
  show ?thesis
  proof (cases "i < length (startCalls l) \<and> 0 < sockets (startCalls l ! i)")
    case False
    with inv show ?thesis by (auto simp: socketConnected_def)
  next
    case True
    show ?thesis
    proof (cases "waitApi (startCalls l ! i) = Polling")
      case False
      with inv True show ?thesis
        by (auto simp: countInv_def socketConnected_def Let_def isReady_def
                       length_filter_update_same dest!: in_set_updateD)
    next
      case pol: True
      let ?c = "(startCalls l ! i)\<lparr>timer := False, waitApi := ApiReady\<rparr>"
      let ?l1 = "l\<lparr>startCalls := (startCalls l)[i := ?c]\<rparr>"
      have n: "length (filter isReady (startCalls ?l1)) = Suc (length (filter isReady (startCalls l)))"
        using True pol by (simp add: length_filter_update_new isReady_def)
      have "length (readysOf (trace (emitReady (getApi ?l1) ?l1)))
          = Suc (length (readysOf (trace l)))"
        by (simp add: emitReady_def readysOf_append)
      moreover have "length (filter isReady (startCalls (emitReady (getApi ?l1) ?l1)))
          = length (filter isReady (startCalls ?l1))"
        by (simp add: emitReady_def isReady_settle)
      moreover have "\<forall>c \<in> set (startCalls (emitReady (getApi ?l1) ?l1)).
            phase c = AwaitNode \<or> phase c = AwaitWallet \<longrightarrow> waitApi c = NotPolling"
      proof -
        have "startCalls l ! i \<in> set (startCalls l)" using True by simp
        with inv pol have "phase (startCalls l ! i) \<noteq> AwaitNode"
          "phase (startCalls l ! i) \<noteq> AwaitWallet"
          by (auto simp: countInv_def)
        with inv show ?thesis
          by (auto simp: emitReady_def countInv_def dest!: in_set_updateD)
      qed
      ultimately have "countInv (emitReady (getApi ?l1) ?l1)"
        using inv n by (simp add: countInv_def)
      with True pol show ?thesis
        by (simp add: socketConnected_def Let_def)
    qed
  qed
qed

lemma countInv_stop: "countInv l \<Longrightarrow> countInv (Launcher_stop t l)"
  by (auto simp: countInv_def Launcher_stop_def Let_def readysOf_append)

lemma countInv_servicesStopped: "countInv l \<Longrightarrow> countInv (servicesStopped P k w n l)"
  by (auto simp: countInv_def servicesStopped_def emitExit_def Let_def readysOf_append
                 isReady_settle length_filter_update_same dest!: in_set_updateD)

lemma countInv_exitListenerThrows:
  "countInv l \<Longrightarrow> countInv (exitListenerThrows P k w n js e l)"
  by (auto simp: countInv_def exitListenerThrows_def emitExitTo_fields Let_def readysOf_append
                 filter_emitExitTo isReady_def dest!: in_emitExitTo)

lemma countInv_statusChanged: "countInv l \<Longrightarrow> countInv (statusChanged sv st l)"
  by (cases sv) (auto simp: countInv_def statusChanged_def Launcher_stop_def Let_def readysOf_append)

lemma countInv_signalReceived: "countInv l \<Longrightarrow> countInv (signalReceived l)"
  by (auto simp: countInv_def signalReceived_def readysOf_append)

lemma countInv_step: "countInv l \<Longrightarrow> countInv (step P e l)"
  by (cases e)
     (simp_all add: countInv_nodeSettled countInv_getPortSettled countInv_start
        countInv_startResumed countInv_poll countInv_socketConnected countInv_stop
        countInv_servicesStopped countInv_exitListenerThrows countInv_statusChanged
        countInv_signalReceived)

lemma countInv_run: "countInv l \<Longrightarrow> countInv (run P evs l)"
  unfolding run_def by (induction evs arbitrary: l) (simp_all add: countInv_step)

lemma readys_walletSettled: "readys (walletSettled r l) = readys l"
  by (cases r) (simp_all add: readys_def walletSettled_def readysOf_append)

lemma readys_nodeSettled: "readys (nodeSettled P r l) = readys l"
  by (simp add: nodeSettled_def Let_def readys_walletSettled split: sum.splits option.splits)
     (simp add: readys_def readysOf_append)

lemma readys_getPortSettled: "readys (getPortSettled P r l) = readys l"
  by (simp add: getPortSettled_def readys_walletSettled) (simp add: readys_def)

lemma readys_start: "readys (Launcher_start l) = readys l"
  by (simp add: readys_def Launcher_start_def readysOf_append)

lemma readys_startResumed: "readys (startResumed i r l) = readys l"
  by (simp add: readys_def startResumed_def Let_def readysOf_append
           split: startPhase.splits option.splits)

lemma readys_poll: "readys (poll i l) = readys l"
  by (simp add: readys_def poll_def Let_def readysOf_append)

lemma readys_socketConnected:
  "readys (socketConnected i l) =
     (if i < length (startCalls l) \<and> 0 < sockets (startCalls l ! i)
         \<and> waitApi (startCalls l ! i) = Polling
      then readys l @ [getApi l]
      else readys l)"
  by (simp add: readys_def socketConnected_def emitReady_def getApi_def Let_def readysOf_append)

lemma readys_stop: "readys (Launcher_stop t l) = readys l"
  by (simp add: readys_def Launcher_stop_def Let_def readysOf_append)

lemma readys_statusChanged: "readys (statusChanged sv st l) = readys l"
  by (cases sv) (simp_all add: readys_def statusChanged_def Launcher_stop_def Let_def readysOf_append)

lemma readys_signalReceived: "readys (signalReceived l) = readys l"
  by (simp add: readys_def signalReceived_def readysOf_append)

lemma readys_servicesStopped: "readys (servicesStopped P k w n l) = readys l"
  by (simp add: readys_def servicesStopped_def emitExit_def Let_def readysOf_append)

lemma readys_exitListenerThrows: "readys (exitListenerThrows P k w n js e l) = readys l"
  by (simp add: readys_def exitListenerThrows_def emitExitTo_fields Let_def readysOf_append)

lemma Resolved_in_settleAt:
  "Resolved a \<in> set (settleAt js (Failed x) ps) \<Longrightarrow> Resolved a \<in> set ps"
  by (auto simp: settleAt_def settle_def split: if_splits)

lemmas readys_step =
  readys_nodeSettled readys_getPortSettled readys_start readys_startResumed readys_poll
  readys_socketConnected readys_stop readys_statusChanged readys_signalReceived
  readys_servicesStopped readys_exitListenerThrows

lemma Resolved_in_settle_image:
  "(Resolved a \<in> settle new ` A) = (Resolved a \<in> A \<or> (new = Resolved a \<and> Listening \<in> A))"
  by (auto simp: settle_def image_iff split: if_splits)

lemma Resolved_in_update:
  "Resolved a \<in> set (ps[i := x]) \<Longrightarrow> Resolved a \<in> set ps \<or> x = Resolved a"
  using set_update_subset_insert [of ps i x] by auto

lemma resolvedInv_step:
  assumes "resolvedInv l"
  shows "resolvedInv (step P e l)"
proof (cases e)
  case (StartResumed i r)
  show ?thesis
    unfolding resolvedInv_def
  proof (intro allI impI)
    fix a assume "Resolved a \<in> set (phases (step P e l))"
    then have "Resolved a \<in> set (phases l)"
      by (auto simp: StartResumed phases_startResumed split: if_splits option.splits
               dest!: Resolved_in_update)
    with assms show "a \<in> set (readys (step P e l))"
      by (simp add: StartResumed readys_startResumed resolvedInv_def)
  qed
next
  case (ExitListenerThrows k w n js x)
  show ?thesis
    unfolding resolvedInv_def
  proof (intro allI impI)
    fix a assume "Resolved a \<in> set (phases (step P e l))"
    then have "Resolved a \<in> set (phases l)"
      by (auto simp: ExitListenerThrows phases_exitListenerThrows split: if_splits
               dest!: Resolved_in_settleAt)
    with assms show "a \<in> set (readys (step P e l))"
      by (simp add: ExitListenerThrows readys_exitListenerThrows resolvedInv_def)
  qed
qed (use assms in \<open>auto simp: resolvedInv_def phases_step readys_step
       Resolved_in_settle_image\<close>)

lemma resolvedInv_run: "resolvedInv l \<Longrightarrow> resolvedInv (run P evs l)"
  unfolding run_def by (induction evs arbitrary: l) (simp_all add: resolvedInv_step)

text \<open>
  C9, as amended. In every execution the ready notification is emitted at most once for
  each call of \<open>start()\<close> (so at most once when \<open>start()\<close> is called once); every ready
  notification carries \<open>V2Api\<close> of the recorded API port (host 127.0.0.1, that port, path
  /v2/), and every resolved call of \<open>start()\<close> holds the payload of an emitted ready
  notification, which is that same value.
\<close>

theorem ready_once_per_start_call:
  "length (readysOf (trace (run P evs (Launcher_init c))))
     \<le> length (startCalls (run P evs (Launcher_init c)))
   \<and> (\<forall>a \<in> set (readysOf (trace (run P evs (Launcher_init c)))).
         a = V2Api (apiPort (run P evs (Launcher_init c))))
   \<and> (\<forall>call \<in> set (startCalls (run P evs (Launcher_init c))). \<forall>a.
         phase call = Resolved a \<longrightarrow>
           a \<in> set (readysOf (trace (run P evs (Launcher_init c))))
           \<and> a = V2Api (apiPort (run P evs (Launcher_init c))))"
proof -
  let ?l = "run P evs (Launcher_init c)"
  have "countInv ?l"
    by (rule countInv_run) (rule countInv_init)
  then have "length (readysOf (trace ?l)) = length (filter isReady (startCalls ?l))"
    by (simp add: countInv_def)
  then have le: "length (readysOf (trace ?l)) \<le> length (startCalls ?l)"
    by simp
  have "portInv ?l"
    by (rule portInv_run) (rule portInv_init)
  then have api: "\<forall>a \<in> set (readysOf (trace ?l)). a = V2Api (apiPort ?l)"
    by (simp add: portInv_def)
  have "resolvedInv (Launcher_init c)"
    by (simp add: resolvedInv_def phases_def Launcher_init_def)
  then have "resolvedInv ?l"
    by (rule resolvedInv_run)
  then have res: "\<forall>call \<in> set (startCalls ?l). \<forall>a.
         phase call = Resolved a \<longrightarrow> a \<in> set (readysOf (trace ?l))"
    by (force simp: resolvedInv_def phases_def readys_def)
  from le api res show ?thesis by blast
qed

text \<open>
  C9 as stated fails: \<open>start()\<close> called twice starts two readiness waits, and each emits
  a ready notification when its socket connects.
\<close>

theorem ready_fires_twice:
  "length (readysOf (trace (run examplePlatform
      [NodeSettled (Inr nodeCommand),
       CallStart, CallStart,
       StartResumed 0 None, StartResumed 0 None,
       StartResumed 1 None, StartResumed 1 None,
       PollTick 0, SocketConnected 0,
       PollTick 1, SocketConnected 1]
      (Launcher_init shelleyConfig)))) = 2"
  by (simp add: run_def Launcher_init_def shelleyConfig_def nodeCommand_def examplePlatform_def
       nodeSettled_def walletSettled_def walletExe_def Launcher_start_def newStartCall_def
       startResumed_def poll_def stopWaiting_def socketConnected_def emitReady_def getApi_def
       Let_def)

section \<open>Order of start-up\<close>

lemma precededBy_append:
  "precededBy a b (xs @ ys) =
     (if a \<in> set xs \<or> b \<in> set xs then precededBy a b xs else precededBy a b ys)"
  by (induction xs) auto

lemma precededBy_absent: "b \<notin> set ys \<Longrightarrow> precededBy a b ys"
  by (induction ys) auto

lemma spawnOrder_append_other:
  "spawnOrder i xs \<Longrightarrow> ServiceStart WalletSvc i \<notin> set ys \<Longrightarrow> spawnOrder i (xs @ ys)"
  by (auto simp: spawnOrder_def precededBy_append precededBy_absent)

lemma spawnOrder_append_pair:
  "spawnOrder i xs \<Longrightarrow> spawnOrder i (xs @ [ServiceStarted NodeSvc j, ServiceStart WalletSvc j])"
  by (cases "j = i") (auto simp: spawnOrder_def precededBy_append)

lemma spawnOrder_step: "spawnOrder i (trace l) \<Longrightarrow> spawnOrder i (trace (step P e l))"
proof (cases e)
  case (NodeSettled r)
  assume "spawnOrder i (trace l)"
  then show ?thesis
    by (auto simp: NodeSettled nodeSettled_def walletSettled_def Let_def
             split: sum.splits option.splits intro!: spawnOrder_append_other)
next
  case (GetPortSettled r')
  assume "spawnOrder i (trace l)"
  then show ?thesis
    by (auto simp: GetPortSettled getPortSettled_def walletSettled_def
             split: sum.splits intro!: spawnOrder_append_other)
next
  case CallStart
  assume "spawnOrder i (trace l)"
  then show ?thesis
    by (auto simp: CallStart Launcher_start_def intro!: spawnOrder_append_other)
next
  case (StartResumed j r)
  assume "spawnOrder i (trace l)"
  then show ?thesis
    by (cases "j = i")
       (auto simp: StartResumed startResumed_def Let_def
             split: startPhase.splits option.splits
             intro!: spawnOrder_append_other spawnOrder_append_pair)
next
  case (PollTick j)
  assume "spawnOrder i (trace l)"
  then show ?thesis
    by (auto simp: PollTick poll_def Let_def intro!: spawnOrder_append_other)
next
  case (SocketConnected j)
  assume "spawnOrder i (trace l)"
  then show ?thesis
    by (auto simp: SocketConnected socketConnected_def emitReady_def Let_def
             intro!: spawnOrder_append_other)
next
  case (CallStop t)
  assume "spawnOrder i (trace l)"
  then show ?thesis
    by (auto simp: CallStop Launcher_stop_def Let_def intro!: spawnOrder_append_other)
next
  case (ServicesStopped k w n)
  assume "spawnOrder i (trace l)"
  then show ?thesis
    by (auto simp: ServicesStopped servicesStopped_def emitExit_def Let_def
             intro!: spawnOrder_append_other)
next
  case (ExitListenerThrows k w n js x)
  assume "spawnOrder i (trace l)"
  then show ?thesis
    by (auto simp: ExitListenerThrows exitListenerThrows_def emitExitTo_fields Let_def
             intro!: spawnOrder_append_other)
next
  case (StatusChanged sv st)
  assume "spawnOrder i (trace l)"
  then show ?thesis
    by (cases sv)
       (auto simp: StatusChanged statusChanged_def Launcher_stop_def Let_def
             intro!: spawnOrder_append_other)
next
  case SignalReceived
  assume "spawnOrder i (trace l)"
  then show ?thesis
    by (auto simp: SignalReceived signalReceived_def intro!: spawnOrder_append_other)
qed

lemma spawnOrder_run: "spawnOrder i (trace l) \<Longrightarrow> spawnOrder i (trace (run P evs l))"
  unfolding run_def by (induction evs arbitrary: l) (simp_all add: spawnOrder_step)

lemma describedAfterNode_step: "describedAfterNode l \<Longrightarrow> describedAfterNode (step P e l)"
proof (cases e)
  case (NodeSettled r)
  assume "describedAfterNode l"
  then show ?thesis
    by (auto simp: NodeSettled describedAfterNode_def nodeSettled_def walletSettled_def Let_def
             split: sum.splits option.splits)
next
  case (GetPortSettled r')
  assume "describedAfterNode l"
  then show ?thesis
    by (auto simp: GetPortSettled describedAfterNode_def getPortSettled_def walletSettled_def
             split: sum.splits)
next
  case CallStart
  assume "describedAfterNode l"
  then show ?thesis
    by (auto simp: CallStart describedAfterNode_def Launcher_start_def)
next
  case (StartResumed i r)
  assume "describedAfterNode l"
  then show ?thesis
    by (auto simp: StartResumed describedAfterNode_def startResumed_def Let_def
             split: startPhase.splits option.splits)
next
  case (PollTick i)
  assume "describedAfterNode l"
  then show ?thesis
    by (auto simp: PollTick describedAfterNode_def poll_def Let_def)
next
  case (SocketConnected i)
  assume "describedAfterNode l"
  then show ?thesis
    by (auto simp: SocketConnected describedAfterNode_def socketConnected_def emitReady_def Let_def)
next
  case (CallStop t)
  assume "describedAfterNode l"
  then show ?thesis
    by (auto simp: CallStop describedAfterNode_def Launcher_stop_def Let_def)
next
  case (ServicesStopped k w n)
  assume "describedAfterNode l"
  then show ?thesis
    by (auto simp: ServicesStopped describedAfterNode_def servicesStopped_def emitExit_def Let_def)
next
  case (ExitListenerThrows k w n js x)
  assume "describedAfterNode l"
  then show ?thesis
    by (auto simp: ExitListenerThrows describedAfterNode_def exitListenerThrows_def
                   emitExitTo_fields Let_def)
next
  case (StatusChanged sv st)
  assume "describedAfterNode l"
  then show ?thesis
    by (cases sv)
       (auto simp: StatusChanged describedAfterNode_def statusChanged_def Launcher_stop_def Let_def)
next
  case SignalReceived
  assume "describedAfterNode l"
  then show ?thesis
    by (auto simp: SignalReceived describedAfterNode_def signalReceived_def)
qed

lemma describedAfterNode_run: "describedAfterNode l \<Longrightarrow> describedAfterNode (run P evs l)"
  unfolding run_def by (induction evs arbitrary: l) (simp_all add: describedAfterNode_step)

text \<open>
  C6, as amended. In every execution and for every call \<open>i\<close> of \<open>Launcher.start()\<close>, the
  confirmation that the node process has been spawned (the fulfilment of that call's
  \<open>nodeService.start()\<close>) precedes the call's \<open>walletService.start()\<close>; and
  \<open>walletExe\<close>, which computes the wallet's process description, is called only once
  the node's process description has been computed (the promise \<open>start.node\<close> is
  fulfilled).
\<close>

theorem node_spawn_precedes_wallet_spawn:
  "precededBy (ServiceStarted NodeSvc i) (ServiceStart WalletSvc i)
     (trace (run P evs (Launcher_init c)))
   \<and> (CallWalletExe \<in> set (trace (run P evs (Launcher_init c))) \<longrightarrow>
        (\<exists>startService. startNode (run P evs (Launcher_init c)) = Fulfilled startService))"
proof -
  have "spawnOrder i (trace (Launcher_init c))"
    by (simp add: spawnOrder_def Launcher_init_def)
  then have "spawnOrder i (trace (run P evs (Launcher_init c)))"
    by (rule spawnOrder_run)
  moreover have "describedAfterNode (Launcher_init c)"
    by (simp add: describedAfterNode_def Launcher_init_def)
  then have "describedAfterNode (run P evs (Launcher_init c))"
    by (rule describedAfterNode_run)
  ultimately show ?thesis
    by (simp add: spawnOrder_def describedAfterNode_def)
qed

text \<open>
  C6 as stated fails: \<open>walletExe\<close> is chained behind \<open>nodeExe\<close> by the constructor, so
  the wallet's process description is computed as soon as the node's is, before
  \<open>start()\<close> has spawned the node.
\<close>

theorem wallet_described_before_node_spawn:
  "trace (run examplePlatform
      [NodeSettled (Inr nodeCommand), CallStart, StartResumed 0 None, StartResumed 0 None]
      (Launcher_init shelleyConfig))
     = [Mkdirp ''/tmp/state-launcher'', CallWalletExe, ServiceStart NodeSvc 0,
        ServiceStarted NodeSvc 0, ServiceStart WalletSvc 0, ServiceStarted WalletSvc 0]
   \<and> \<not> precededBy (ServiceStarted NodeSvc 0) CallWalletExe
        (trace (run examplePlatform
           [NodeSettled (Inr nodeCommand), CallStart, StartResumed 0 None, StartResumed 0 None]
           (Launcher_init shelleyConfig)))"
  by (simp add: run_def Launcher_init_def shelleyConfig_def nodeCommand_def examplePlatform_def
       nodeSettled_def walletSettled_def walletExe_def Launcher_start_def newStartCall_def
       startResumed_def Let_def)

section \<open>Executions on the example inputs\<close>

lemmas example_defs =
  run_def Launcher_init_def shelleyConfig_def listenConfig_def byronTestnetConfig_def
  nodeCommand_def examplePlatform_def exitOk_def exitFailed_def
  nodeSettled_def getPortSettled_def walletSettled_def walletExe_def addArgs_def kind_def
  Launcher_start_def newStartCall_def startResumed_def poll_def stopWaiting_def
  socketConnected_def emitReady_def emitExit_def getApi_def Launcher_stop_def
  servicesStopped_def exitListenerThrows_def emitExitTo_def statusChanged_def signalReceived_def
  BackendExitedError_new_def exitStatusMessage_def Let_def

text \<open>
  The node stops while \<open>start()\<close> waits for readiness: \<open>start()\<close> is rejected with the
  two-line error.
\<close>

theorem start_rejects_with_BackendExitedError_witness:
  "Failed (BackendExitedError (''cardano-wallet exited'' @ [CHR 0x0A] @ ''cardano-node exited'')
             \<lparr>wallet = exitOk ''cardano-wallet'', node = exitFailed ''cardano-node''\<rparr>)
     \<in> set (map phase (startCalls (run examplePlatform
          [CallStart, StartResumed 0 None, StartResumed 0 None,
           StatusChanged NodeSvc Stopped,
           ServicesStopped 0 (exitOk ''cardano-wallet'') (exitFailed ''cardano-node'')]
          (Launcher_init shelleyConfig))))
   \<and> exitsOf (trace (run examplePlatform
          [CallStart, StartResumed 0 None, StartResumed 0 None,
           StatusChanged NodeSvc Stopped,
           ServicesStopped 0 (exitOk ''cardano-wallet'') (exitFailed ''cardano-node'')]
          (Launcher_init shelleyConfig)))
       = [\<lparr>wallet = exitOk ''cardano-wallet'', node = exitFailed ''cardano-node''\<rparr>]
   \<and> exitStatusMessage (serviceExitStatusMessage examplePlatform)
        \<lparr>wallet = exitOk ''cardano-wallet'', node = exitFailed ''cardano-node''\<rparr>
       = ''cardano-wallet exited'' @ [CHR 0x0A] @ ''cardano-node exited''"
  using start_rejects_with_BackendExitedError
    [where f = "serviceExitStatusMessage examplePlatform"
       and st = "\<lparr>wallet = exitOk ''cardano-wallet'', node = exitFailed ''cardano-node''\<rparr>"]
  by (simp add: example_defs)

text \<open>
  With no port configured and none found yet, five ticks change nothing; after the node
  is reported stopped, the next tick rejects the wait.
\<close>

theorem poll_tolerates_unknown_port_witness:
  "(poll 0 ^^ 5) (run examplePlatform [CallStart, StartResumed 0 None, StartResumed 0 None]
                    (Launcher_init listenConfig))
     = run examplePlatform [CallStart, StartResumed 0 None, StartResumed 0 None]
         (Launcher_init listenConfig)
   \<and> waitApi (startCalls (poll 0 (run examplePlatform
         [CallStart, StartResumed 0 None, StartResumed 0 None, StatusChanged NodeSvc Stopped]
         (Launcher_init listenConfig))) ! 0) = PollingFailed (Error ''Polling stopped'')"
proof -
  let ?l = "run examplePlatform [CallStart, StartResumed 0 None, StartResumed 0 None]
              (Launcher_init listenConfig)"
  let ?l' = "run examplePlatform
         [CallStart, StartResumed 0 None, StartResumed 0 None, StatusChanged NodeSvc Stopped]
         (Launcher_init listenConfig)"
  have a: "0 < length (startCalls ?l)" "timer (startCalls ?l ! 0)"
    "waitApi (startCalls ?l ! 0) = Polling" "apiPort ?l = 0" "\<not> stopWaiting ?l"
    by (simp_all add: example_defs)
  have b: "0 < length (startCalls ?l')" "timer (startCalls ?l' ! 0)"
    "waitApi (startCalls ?l' ! 0) = Polling" "stopWaiting ?l'"
    by (simp_all add: example_defs)
  from poll_tolerates_unknown_port [OF a(1-3), of 5] a(4,5)
  have "(poll 0 ^^ 5) ?l = ?l" by blast
  moreover from poll_tolerates_unknown_port [OF b(1-3)] b(4)
  have "startCalls (poll 0 ?l') ! 0
      = (startCalls ?l' ! 0)\<lparr>timer := False, waitApi := PollingFailed (Error ''Polling stopped'')\<rparr>"
    by blast
  then have "waitApi (startCalls (poll 0 ?l') ! 0) = PollingFailed (Error ''Polling stopped'')"
    by simp
  ultimately show ?thesis by blast
qed

text \<open>
  One call of \<open>start()\<close>, two sockets that both connect: one ready notification, with
  which \<open>start()\<close> resolves.
\<close>

theorem ready_once_per_start_call_witness:
  "map phase (startCalls (run examplePlatform
      [NodeSettled (Inr nodeCommand), CallStart, StartResumed 0 None, StartResumed 0 None,
       PollTick 0, PollTick 0, SocketConnected 0, SocketConnected 0]
      (Launcher_init shelleyConfig))) = [Resolved (V2Api 8090)]
   \<and> readysOf (trace (run examplePlatform
      [NodeSettled (Inr nodeCommand), CallStart, StartResumed 0 None, StartResumed 0 None,
       PollTick 0, PollTick 0, SocketConnected 0, SocketConnected 0]
      (Launcher_init shelleyConfig))) = [V2Api 8090]"
  using ready_once_per_start_call
    [of examplePlatform
      "[NodeSettled (Inr nodeCommand), CallStart, StartResumed 0 None, StartResumed 0 None,
       PollTick 0, PollTick 0, SocketConnected 0, SocketConnected 0]" shelleyConfig]
  by (simp add: example_defs)

text \<open>
  An execution in which \<open>start()\<close> is called before the node's description is ready.
\<close>

theorem node_spawn_precedes_wallet_spawn_witness:
  "CallWalletExe \<in> set (trace (run examplePlatform
      [CallStart, NodeSettled (Inr nodeCommand), StartResumed 0 None, StartResumed 0 None]
      (Launcher_init shelleyConfig)))
   \<and> (\<exists>startService. startNode (run examplePlatform
      [CallStart, NodeSettled (Inr nodeCommand), StartResumed 0 None, StartResumed 0 None]
      (Launcher_init shelleyConfig)) = Fulfilled startService)
   \<and> precededBy (ServiceStarted NodeSvc 0) (ServiceStart WalletSvc 0)
       (trace (run examplePlatform
      [CallStart, NodeSettled (Inr nodeCommand), StartResumed 0 None, StartResumed 0 None]
      (Launcher_init shelleyConfig)))"
proof -
  have "CallWalletExe \<in> set (trace (run examplePlatform
      [CallStart, NodeSettled (Inr nodeCommand), StartResumed 0 None, StartResumed 0 None]
      (Launcher_init shelleyConfig)))"
    by (simp add: example_defs)
  with node_spawn_precedes_wallet_spawn
    [where i = 0 and P = examplePlatform and c = shelleyConfig
       and evs = "[CallStart, NodeSettled (Inr nodeCommand), StartResumed 0 None,
                   StartResumed 0 None]"]
  show ?thesis by blast
qed

section \<open>Configuration errors\<close>

lemma walletExe_byron_no_genesis:
  "nodeConfig c = Byron b \<Longrightarrow> networkName c \<noteq> ''mainnet'' \<Longrightarrow> genesisFile (network b) = None
     \<Longrightarrow> walletExe pj dir c freePort = Inl (Error ''ByronNetwork.genesisFile must be configured'')"
  by (simp add: walletExe_def Let_def)

lemma portUnset_walletSettled: "portUnset c l \<Longrightarrow> portUnset c (walletSettled (Inl e) l)"
  by (simp add: portUnset_def walletSettled_def)

lemma portUnset_step:
  assumes bad: "\<And>pj dir freePort. \<exists>e. walletExe pj dir c freePort = Inl e"
    and inv: "portUnset c l"
  shows "portUnset c (step P ev l)"
proof (cases ev)
  case (NodeSettled r)
  have a: "portUnset c (l\<lparr>startNode := x\<rparr>)" for x
    using inv by (simp add: portUnset_def)
  have b: "portUnset c (l\<lparr>startNode := x, trace := t\<rparr>)" for x t
    using inv by (simp add: portUnset_def)
  have cfg: "config l = c" using inv by (simp add: portUnset_def)
  show ?thesis
  proof (cases "startNode l = Pending")
    case False
    with inv show ?thesis by (simp add: NodeSettled nodeSettled_def)
  next
    case True
    show ?thesis
    proof (cases r)
      case (Inl e)
      with True a show ?thesis
        by (simp add: NodeSettled nodeSettled_def portUnset_walletSettled)
    next
      case (Inr ss)
      show ?thesis
      proof (cases "configApiPort c")
        case None
        with True Inr cfg b [where x = "Fulfilled ss" and t = "trace l @ [CallWalletExe]"] show ?thesis
          by (simp add: NodeSettled nodeSettled_def Let_def portUnset_def)
      next
        case (Some p)
        from bad obtain e where "walletExe (pathJoin P) (stateDir c) c p = Inl e" by blast
        with True Inr Some cfg b [where x = "Fulfilled ss" and t = "trace l @ [CallWalletExe]"] show ?thesis
          by (simp add: NodeSettled nodeSettled_def Let_def portUnset_walletSettled)
      qed
    qed
  qed
next
  case (GetPortSettled r')
  have cfg: "config l = c" using inv by (simp add: portUnset_def)
  have a: "portUnset c (l\<lparr>awaitingGetPort := False\<rparr>)"
    using inv by (simp add: portUnset_def)
  have "\<exists>e. (case r' of Inl e \<Rightarrow> Inl e
                 | Inr freePort \<Rightarrow>
                     walletExe (pathJoin P) (stateDir (config l)) (config l) freePort) = Inl e"
    unfolding cfg using bad by (cases r') simp_all
  then obtain e where "(case r' of Inl e \<Rightarrow> Inl e
                 | Inr freePort \<Rightarrow>
                     walletExe (pathJoin P) (stateDir (config l)) (config l) freePort) = Inl e"
    by blast
  with inv a show ?thesis
    by (simp add: GetPortSettled getPortSettled_def portUnset_walletSettled)
next
  case CallStart
  with inv show ?thesis by (simp add: portUnset_def Launcher_start_def)
next
  case (StartResumed i r)
  with inv show ?thesis
    by (simp add: portUnset_def startResumed_def Let_def split: startPhase.splits option.splits)
next
  case (PollTick i)
  with inv show ?thesis by (simp add: portUnset_def poll_def Let_def)
next
  case (SocketConnected i)
  with inv show ?thesis by (simp add: portUnset_def socketConnected_def emitReady_def Let_def)
next
  case (CallStop t)
  with inv show ?thesis by (simp add: portUnset_def Launcher_stop_def Let_def)
next
  case (ServicesStopped k w n)
  with inv show ?thesis by (simp add: portUnset_def servicesStopped_def emitExit_def Let_def)
next
  case (ExitListenerThrows k w n js x)
  with inv show ?thesis
    by (simp add: portUnset_def exitListenerThrows_def emitExitTo_fields Let_def)
next
  case (StatusChanged sv st)
  with inv show ?thesis
    by (cases sv) (simp_all add: portUnset_def statusChanged_def Launcher_stop_def Let_def)
next
  case SignalReceived
  with inv show ?thesis by (simp add: portUnset_def signalReceived_def)
qed

lemma portUnset_run:
  assumes bad: "\<And>pj dir freePort. \<exists>e. walletExe pj dir c freePort = Inl e"
  shows "portUnset c l \<Longrightarrow> portUnset c (run P evs l)"
  unfolding run_def
  by (induction evs arbitrary: l) (simp_all add: portUnset_step [OF bad])

text \<open>
  C2, as amended. If the configuration has kind "byron", a network name other than
  "mainnet" and no genesis file, then constructing the Launcher does not throw: the
  constructor returns, having only asked for the state directory, with the wallet's
  process description pending and no Service started. The error
  "ByronNetwork.genesisFile must be configured" is the rejection of the promise of
  \<open>walletExe\<close>, which runs once the node's process description has been computed (and a
  free port found, if none is configured); the constructor's \<open>catch\<close> prints the message.
  In every execution the API port stays unset, the wallet's process description is never
  available and no ready notification is emitted.
\<close>

theorem byron_genesis_error_is_asynchronous:
  assumes "nodeConfig c = Byron b"
    and "networkName c \<noteq> ''mainnet''"
    and "genesisFile (network b) = None"
  shows "Launcher_new c = Inr (Launcher_init c)
    \<and> trace (Launcher_init c) = [Mkdirp (stateDir c)]
    \<and> startWallet (Launcher_init c) = Pending
    \<and> walletExe pj dir c freePort = Inl (Error ''ByronNetwork.genesisFile must be configured'')
    \<and> startWallet (run P [NodeSettled (Inr startService), GetPortSettled (Inr freePort)]
                     (Launcher_init c))
        = Rejected (Error ''ByronNetwork.genesisFile must be configured'')
    \<and> trace (run P [NodeSettled (Inr startService), GetPortSettled (Inr freePort)] (Launcher_init c))
        = [Mkdirp (stateDir c), CallWalletExe]
          @ (case configApiPort c of None \<Rightarrow> [CallGetPort] | Some p \<Rightarrow> [])
          @ [ConsoleError ''ByronNetwork.genesisFile must be configured'']
    \<and> apiPort (run P evs (Launcher_init c)) = 0
    \<and> (\<forall>ws. startWallet (run P evs (Launcher_init c)) \<noteq> Fulfilled ws)
    \<and> readysOf (trace (run P evs (Launcher_init c))) = []"
proof -
  have bad: "walletExe pj' dir' c fp = Inl (Error ''ByronNetwork.genesisFile must be configured'')"
    for pj' dir' fp
    using assms by (rule walletExe_byron_no_genesis)
  then have bad': "\<exists>e. walletExe pj' dir' c fp = Inl e" for pj' dir' fp
    by blast
  have "portUnset c (Launcher_init c)"
    by (simp add: portUnset_def Launcher_init_def)
  then have unset: "portUnset c (run P evs (Launcher_init c))"
    by (rule portUnset_run [OF bad'])
  have "portInv (run P evs (Launcher_init c))"
    by (rule portInv_run) (rule portInv_init)
  with unset have none: "readysOf (trace (run P evs (Launcher_init c))) = []"
    by (simp add: portInv_def portUnset_def)
  have two: "startWallet (run P [NodeSettled (Inr startService), GetPortSettled (Inr freePort)]
                     (Launcher_init c))
        = Rejected (Error ''ByronNetwork.genesisFile must be configured'')
    \<and> trace (run P [NodeSettled (Inr startService), GetPortSettled (Inr freePort)] (Launcher_init c))
        = [Mkdirp (stateDir c), CallWalletExe]
          @ (case configApiPort c of None \<Rightarrow> [CallGetPort] | Some p \<Rightarrow> [])
          @ [ConsoleError ''ByronNetwork.genesisFile must be configured'']"
    by (cases "configApiPort c")
       (simp_all add: run_def Launcher_init_def nodeSettled_def getPortSettled_def
          walletSettled_def bad Let_def)
  from unset none two bad show ?thesis
    by (simp add: Launcher_new_def portUnset_def Launcher_init_def)
qed

text \<open>
  The Byron testnet configuration without a genesis file.
\<close>

theorem byron_genesis_error_is_asynchronous_witness:
  "Launcher_new byronTestnetConfig = Inr (Launcher_init byronTestnetConfig)
   \<and> startWallet (run examplePlatform [NodeSettled (Inr nodeCommand), GetPortSettled (Inr 8091)]
                    (Launcher_init byronTestnetConfig))
       = Rejected (Error ''ByronNetwork.genesisFile must be configured'')
   \<and> apiPort (run examplePlatform
        [NodeSettled (Inr nodeCommand), CallStart, StartResumed 0 None, StartResumed 0 None,
         PollTick 0, SocketConnected 0]
        (Launcher_init byronTestnetConfig)) = 0"
proof -
  have "nodeConfig byronTestnetConfig = Byron \<lparr> network = \<lparr> genesisFile = None \<rparr>, socketFile = None \<rparr>"
    "networkName byronTestnetConfig \<noteq> ''mainnet''"
    "genesisFile (network \<lparr> network = \<lparr> genesisFile = None \<rparr>, socketFile = None \<rparr>) = None"
    by (simp_all add: byronTestnetConfig_def)
  from byron_genesis_error_is_asynchronous [OF this, where P = examplePlatform
      and startService = nodeCommand and freePort = 8091
      and evs = "[NodeSettled (Inr nodeCommand), CallStart, StartResumed 0 None,
         StartResumed 0 None, PollTick 0, SocketConnected 0]"]
  show ?thesis by blast
qed

text \<open>
  C2 as stated fails: for the Byron testnet configuration without a genesis file the
  constructor returns normally; the error appears later, as the rejection of the wallet's
  process description.
\<close>

theorem constructor_does_not_throw:
  "\<not> isl (Launcher_new byronTestnetConfig)
   \<and> trace (Launcher_init byronTestnetConfig) = [Mkdirp ''/tmp/state-launcher'']
   \<and> startWallet (run examplePlatform [NodeSettled (Inr nodeCommand)]
                    (Launcher_init byronTestnetConfig))
       = Rejected (Error ''ByronNetwork.genesisFile must be configured'')"
  by (simp add: Launcher_new_def example_defs)

section \<open>The API connection parameters\<close>

lemma freePorts_mem: "p \<in> set (freePorts evs) \<Longrightarrow> GetPortSettled (Inr p) \<in> set evs"
  by (induction evs rule: freePorts.induct) auto

lemma walletExe_port:
  "walletExe pj dir c freePort = Inr ws \<Longrightarrow>
     serviceApiPort ws = (case configApiPort c of Some p \<Rightarrow> p | None \<Rightarrow> freePort)"
  by (auto simp: walletExe_def addArgs_def Let_def split: NodeConfig.splits if_splits)

lemma allowedPorts_mono: "F \<subseteq> G \<Longrightarrow> allowedPorts c F \<subseteq> allowedPorts c G"
  by (auto simp: allowedPorts_def split: option.splits)

lemma portSource_mono: "portSource c F l \<Longrightarrow> F \<subseteq> G \<Longrightarrow> portSource c G l"
  using allowedPorts_mono [of F G c] by (auto simp: portSource_def)

lemma portSource_walletExe:
  "portSource c F l \<Longrightarrow>
     portSource c (insert freePort F) (walletSettled (walletExe pj dir c freePort) l)"
proof (cases "walletExe pj dir c freePort")
  case (Inl e)
  assume "portSource c F l"
  then have "portSource c (insert freePort F) l"
    by (rule portSource_mono) auto
  then show ?thesis
    by (simp add: Inl walletSettled_def portSource_def)
next
  case (Inr ws)
  assume "portSource c F l"
  with walletExe_port [OF Inr] show ?thesis
    by (auto simp: Inr walletSettled_def portSource_def allowedPorts_def split: option.splits)
qed

lemma portSource_step:
  assumes inv: "portSource c F l"
  shows "portSource c (F \<union> set (freePorts [ev])) (step P ev l)"
proof (cases ev)
  case (NodeSettled r)
  have cfg: "config l = c" using inv by (simp add: portSource_def)
  have b: "portSource c F (l\<lparr>startNode := x, trace := t\<rparr>)" for x t
    using inv by (simp add: portSource_def)
  have a: "portSource c F (walletSettled (Inl e) (l\<lparr>startNode := x\<rparr>))" for x e
    using inv by (simp add: portSource_def walletSettled_def)
  show ?thesis
  proof (cases "configApiPort c")
    case None
    with inv a show ?thesis
      by (auto simp: NodeSettled nodeSettled_def Let_def cfg portSource_def
               split: sum.splits)
  next
    case (Some p)
    have "portSource c (insert p F)
            (walletSettled (walletExe (pathJoin P) (stateDir c) c p) (l\<lparr>startNode := x, trace := t\<rparr>))"
      for x t
      using b by (rule portSource_walletExe)
    then have "portSource c F
            (walletSettled (walletExe (pathJoin P) (stateDir c) c p) (l\<lparr>startNode := x, trace := t\<rparr>))"
      for x t
      using Some by (simp add: portSource_def allowedPorts_def)
    with inv a Some show ?thesis
      by (auto simp: NodeSettled nodeSettled_def Let_def cfg split: sum.splits)
  qed
next
  case (GetPortSettled r')
  have cfg: "config l = c" using inv by (simp add: portSource_def)
  have a: "portSource c F (l\<lparr>awaitingGetPort := False\<rparr>)"
    using inv by (simp add: portSource_def)
  show ?thesis
  proof (cases r')
    case (Inl e)
    from a have "portSource c F (walletSettled (Inl e) (l\<lparr>awaitingGetPort := False\<rparr>))"
      by (simp add: portSource_def walletSettled_def)
    with inv show ?thesis
      by (simp add: GetPortSettled Inl getPortSettled_def)
  next
    case (Inr p)
    from a have "portSource c (insert p F)
        (walletSettled (walletExe (pathJoin P) (stateDir c) c p) (l\<lparr>awaitingGetPort := False\<rparr>))"
      by (rule portSource_walletExe)
    moreover have "portSource c (insert p F) l"
      using inv by (rule portSource_mono) auto
    ultimately show ?thesis
      by (simp add: GetPortSettled Inr getPortSettled_def cfg)
  qed
next
  case CallStart
  with inv show ?thesis by (simp add: portSource_def Launcher_start_def)
next
  case (StartResumed i r)
  with inv show ?thesis
    by (cases r)
       (simp_all add: portSource_def startResumed_def Let_def split: startPhase.splits)
next
  case (PollTick i)
  with inv show ?thesis by (simp add: portSource_def poll_def Let_def)
next
  case (SocketConnected i)
  with inv show ?thesis by (simp add: portSource_def socketConnected_def emitReady_def Let_def)
next
  case (CallStop t)
  with inv show ?thesis by (simp add: portSource_def Launcher_stop_def Let_def)
next
  case (ServicesStopped k w n)
  with inv show ?thesis by (simp add: portSource_def servicesStopped_def emitExit_def Let_def)
next
  case (ExitListenerThrows k w n js x)
  with inv show ?thesis
    by (simp add: portSource_def exitListenerThrows_def emitExitTo_fields Let_def)
next
  case (StatusChanged sv st)
  with inv show ?thesis
    by (cases sv) (simp_all add: portSource_def statusChanged_def Launcher_stop_def Let_def)
next
  case SignalReceived
  with inv show ?thesis by (simp add: portSource_def signalReceived_def)
qed

lemma freePorts_append: "freePorts (xs @ ys) = freePorts xs @ freePorts ys"
  by (induction xs rule: freePorts.induct) simp_all

lemma portSource_run:
  "portSource c F l \<Longrightarrow> portSource c (F \<union> set (freePorts evs)) (run P evs l)"
proof (induction evs arbitrary: l F)
  case Nil
  then show ?case by (simp add: run_def)
next
  case (Cons e evs)
  from portSource_step [OF Cons.prems, of e]
  have "portSource c (F \<union> set (freePorts [e]) \<union> set (freePorts evs)) (run P evs (step P e l))"
    by (rule Cons.IH)
  moreover have "freePorts (e # evs) = freePorts [e] @ freePorts evs"
    using freePorts_append [of "[e]" evs] by simp
  ultimately show ?case
    by (simp add: run_def Un_assoc)
qed

lemma digit_cases:
  "d < 10 \<Longrightarrow> d = 0 \<or> d = 1 \<or> d = 2 \<or> d = 3 \<or> d = 4 \<or> d = 5 \<or> d = 6 \<or> d = 7 \<or> d = 8
     \<or> d = (9::nat)"
  by arith

lemma digitValue_digitChar: "d < 10 \<Longrightarrow> digitValue (digitChar d) = d"
  using digit_cases [of d] by (auto simp: digitValue_def digitChar_def)

lemma isDigit_digitChar: "d < 10 \<Longrightarrow> isDigit (digitChar d)"
  using digit_cases [of d] by (auto simp: isDigit_def digitChar_def)

lemma digitChar_zero: "d < 10 \<Longrightarrow> (digitChar d = CHR ''0'') = (d = 0)"
  using digit_cases [of d] by (auto simp: digitChar_def)

lemma decimalValue_snoc: "decimalValue (s @ [ch]) = 10 * decimalValue s + digitValue ch"
  by (simp add: decimalValue_def)

lemma decimalValue_numberToString: "decimalValue (numberToString n) = n"
proof (induction n rule: numberToString.induct)
  case (1 n)
  show ?case
  proof (cases "n < 10")
    case True
    then show ?thesis
      by (subst numberToString.simps) (simp add: decimalValue_def digitValue_digitChar)
  next
    case False
    with 1 have "decimalValue (numberToString (n div 10)) = n div 10" by simp
    with False show ?thesis
      by (subst numberToString.simps) (simp add: decimalValue_snoc digitValue_digitChar)
  qed
qed

lemma digits_numberToString: "list_all isDigit (numberToString n)"
proof (induction n rule: numberToString.induct)
  case (1 n)
  show ?case
  proof (cases "n < 10")
    case True
    then show ?thesis
      by (subst numberToString.simps) (simp add: isDigit_digitChar)
  next
    case False
    with 1 have "list_all isDigit (numberToString (n div 10))" by simp
    with False show ?thesis
      by (subst numberToString.simps) (simp add: isDigit_digitChar)
  qed
qed

lemma numberToString_nonempty: "numberToString n \<noteq> []"
  by (subst numberToString.simps) simp

lemma numberToString_leading: "(hd (numberToString n) = CHR ''0'') = (n = 0)"
proof (induction n rule: numberToString.induct)
  case (1 n)
  show ?case
  proof (cases "n < 10")
    case True
    then show ?thesis
      by (subst numberToString.simps) (simp add: digitChar_zero)
  next
    case False
    with 1 have "(hd (numberToString (n div 10)) = CHR ''0'') = (n div 10 = 0)" by simp
    moreover from False have "n div 10 \<noteq> 0" by simp
    ultimately show ?thesis
      using False by (subst numberToString.simps) (simp add: numberToString_nonempty)
  qed
qed

lemma numberToString_inject: "(numberToString m = numberToString n) = (m = n)"
proof
  assume "numberToString m = numberToString n"
  then have "decimalValue (numberToString m) = decimalValue (numberToString n)" by (rule arg_cong)
  then show "m = n" by (simp only: decimalValue_numberToString)
next
  assume "m = n"
  then show "numberToString m = numberToString n" by (rule arg_cong)
qed

text \<open>
  C10. For every port \<open>p\<close>, \<open>V2Api p\<close> has the base URL "http://127.0.0.1:" followed by
  \<open>p\<close> in decimal and "/v2/", and the request parameters \<open>{port = p, path = "/v2/",
  hostname = "127.0.0.1"}\<close>. The rendering of \<open>p\<close> is its decimal numeral: a string of
  digits that denotes \<open>p\<close> and begins with 0 only for \<open>p = 0\<close>; distinct ports give distinct
  URLs, and the URLs of the ports 0, 8090 and 65535 are written out. \<open>getApi\<close> returns
  \<open>V2Api\<close> of the port recorded from the wallet's process description, and does so in every
  execution, whatever the configuration (its \<open>listenAddress\<close> included). The recorded
  port is the configured port, or else a port that \<open>getPort()\<close> returned.
\<close>

theorem getApi_is_loopback_v2:
  "V2Api p = \<lparr> baseUrl = ''http://127.0.0.1:'' @ numberToString p @ ''/v2/'',
               requestParams = \<lparr> port = p, path = ''/v2/'', hostname = ''127.0.0.1'' \<rparr> \<rparr>
   \<and> decimalValue (numberToString p) = p
   \<and> list_all isDigit (numberToString p)
   \<and> (hd (numberToString p) = CHR ''0'') = (p = 0)
   \<and> (baseUrl (V2Api p) = baseUrl (V2Api q)) = (p = q)
   \<and> baseUrl (V2Api 0) = ''http://127.0.0.1:0/v2/''
   \<and> baseUrl (V2Api 8090) = ''http://127.0.0.1:8090/v2/''
   \<and> baseUrl (V2Api 65535) = ''http://127.0.0.1:65535/v2/''
   \<and> getApi (walletSettled (Inr startService) l)
       = \<lparr> baseUrl = ''http://127.0.0.1:'' @ numberToString (serviceApiPort startService) @ ''/v2/'',
           requestParams = \<lparr> port = serviceApiPort startService, path = ''/v2/'',
                             hostname = ''127.0.0.1'' \<rparr> \<rparr>
   \<and> getApi (run P evs (Launcher_init c))
       = \<lparr> baseUrl = ''http://127.0.0.1:''
                      @ numberToString (apiPort (run P evs (Launcher_init c))) @ ''/v2/'',
           requestParams = \<lparr> port = apiPort (run P evs (Launcher_init c)), path = ''/v2/'',
                             hostname = ''127.0.0.1'' \<rparr> \<rparr>
   \<and> (apiPort (run P evs (Launcher_init c)) \<noteq> 0 \<longrightarrow>
        (case configApiPort c of
           Some q \<Rightarrow> apiPort (run P evs (Launcher_init c)) = q
         | None \<Rightarrow> GetPortSettled (Inr (apiPort (run P evs (Launcher_init c)))) \<in> set evs))"
proof -
  have v2: "V2Api q = \<lparr> baseUrl = ''http://127.0.0.1:'' @ numberToString q @ ''/v2/'',
               requestParams = \<lparr> port = q, path = ''/v2/'', hostname = ''127.0.0.1'' \<rparr> \<rparr>" for q
    by (simp add: V2Api_def Let_def)
  have inj: "(baseUrl (V2Api p) = baseUrl (V2Api q)) = (p = q)"
    by (simp add: v2 numberToString_inject)
  have ex: "baseUrl (V2Api 0) = ''http://127.0.0.1:0/v2/''"
    "baseUrl (V2Api 8090) = ''http://127.0.0.1:8090/v2/''"
    "baseUrl (V2Api 65535) = ''http://127.0.0.1:65535/v2/''"
    by (simp_all add: v2 numberToString.simps digitChar_def)
  have "portSource c {} (Launcher_init c)"
    by (simp add: portSource_def Launcher_init_def)
  from portSource_run [OF this, of evs P]
  have src: "apiPort (run P evs (Launcher_init c)) \<noteq> 0 \<longrightarrow>
        (case configApiPort c of
           Some q \<Rightarrow> apiPort (run P evs (Launcher_init c)) = q
         | None \<Rightarrow> GetPortSettled (Inr (apiPort (run P evs (Launcher_init c)))) \<in> set evs)"
    by (auto simp: portSource_def allowedPorts_def split: option.splits dest: freePorts_mem)
  have api: "getApi (walletSettled (Inr startService) l)
       = \<lparr> baseUrl = ''http://127.0.0.1:'' @ numberToString (serviceApiPort startService) @ ''/v2/'',
           requestParams = \<lparr> port = serviceApiPort startService, path = ''/v2/'',
                             hostname = ''127.0.0.1'' \<rparr> \<rparr>"
    "getApi (run P evs (Launcher_init c))
       = \<lparr> baseUrl = ''http://127.0.0.1:''
                      @ numberToString (apiPort (run P evs (Launcher_init c))) @ ''/v2/'',
           requestParams = \<lparr> port = apiPort (run P evs (Launcher_init c)), path = ''/v2/'',
                             hostname = ''127.0.0.1'' \<rparr> \<rparr>"
    by (simp_all add: v2 getApi_def walletSettled_def)
  from v2 [of p] decimalValue_numberToString [of p] digits_numberToString [of p]
    numberToString_leading [of p] inj ex api src
  show ?thesis by blast
qed

text \<open>
  A configuration that listens on 0.0.0.0 and leaves the port to \<open>getPort()\<close>, which
  returns 8091.
\<close>

theorem getApi_is_loopback_v2_witness:
  "apiPort (run examplePlatform [NodeSettled (Inr nodeCommand), GetPortSettled (Inr 8091)]
              (Launcher_init listenConfig)) = 8091
   \<and> listenAddress listenConfig = Some ''0.0.0.0''
   \<and> getApi (run examplePlatform [NodeSettled (Inr nodeCommand), GetPortSettled (Inr 8091)]
                (Launcher_init listenConfig))
       = \<lparr> baseUrl = ''http://127.0.0.1:8091/v2/'',
           requestParams = \<lparr> port = 8091, path = ''/v2/'', hostname = ''127.0.0.1'' \<rparr> \<rparr>"
proof -
  have p: "apiPort (run examplePlatform [NodeSettled (Inr nodeCommand), GetPortSettled (Inr 8091)]
              (Launcher_init listenConfig)) = 8091"
    by (simp add: example_defs)
  have n: "numberToString 8091 = ''8091''"
    by (simp add: numberToString.simps digitChar_def)
  from getApi_is_loopback_v2
    [where P = examplePlatform and c = listenConfig
       and evs = "[NodeSettled (Inr nodeCommand), GetPortSettled (Inr 8091)]"]
  have "getApi (run examplePlatform [NodeSettled (Inr nodeCommand), GetPortSettled (Inr 8091)]
                (Launcher_init listenConfig))
       = \<lparr> baseUrl = ''http://127.0.0.1:'' @ numberToString 8091 @ ''/v2/'',
           requestParams = \<lparr> port = 8091, path = ''/v2/'', hostname = ''127.0.0.1'' \<rparr> \<rparr>"
    unfolding p by blast
  then have g: "getApi (run examplePlatform [NodeSettled (Inr nodeCommand), GetPortSettled (Inr 8091)]
                (Launcher_init listenConfig))
       = \<lparr> baseUrl = ''http://127.0.0.1:8091/v2/'',
           requestParams = \<lparr> port = 8091, path = ''/v2/'', hostname = ''127.0.0.1'' \<rparr> \<rparr>"
    by (simp add: n)
  have a: "listenAddress listenConfig = Some ''0.0.0.0''"
    by (simp add: listenConfig_def)
  from p a g show ?thesis by blast
qed

section \<open>Failure propagation\<close>

lemma run_append: "run P (xs @ ys) l = run P ys (run P xs l)"
  by (simp add: run_def)

lemma unrejected_step:
  assumes "unrejected i l"
  shows "unrejected i (step P e l)"
proof -
  from assms have ex: "exited l" and i: "i < length (phases l)"
    and p: "phases l ! i = Listening \<or> (\<exists>a. phases l ! i = Resolved a)"
    by (auto simp: unrejected_def split: startPhase.splits)
  from ex have ex': "exited (step P e l)"
    by (rule exitView_step_mono)
  have "i < length (phases (step P e l))
      \<and> (phases (step P e l) ! i = Listening \<or> (\<exists>a. phases (step P e l) ! i = Resolved a))"
  proof (cases e)
    case CallStart
    with i p show ?thesis
      by (auto simp: phases_start nth_append)
  next
    case (StartResumed j r)
    with i p show ?thesis
      by (cases "j = i") (auto simp: phases_startResumed)
  next
    case (SocketConnected j)
    with i p show ?thesis
      by (auto simp: phases_socketConnected settle_def)
  next
    case (ServicesStopped k w n)
    with i p ex show ?thesis
      by (simp add: phases_servicesStopped)
  next
    case (ExitListenerThrows k w n js x)
    with i p ex show ?thesis
      by (simp add: phases_exitListenerThrows)
  qed (use i p in \<open>simp_all add: phases_step\<close>)
  with ex' show ?thesis
    by (auto simp: unrejected_def)
qed

lemma unrejected_run: "unrejected i l \<Longrightarrow> unrejected i (run P evs l)"
  unfolding run_def by (induction evs arbitrary: l) (simp_all add: unrejected_step)

text \<open>
  C4, at a failing input. When either Service reports \<open>Stopped\<close>, the listener of the
  constructor calls \<open>Launcher.stop()\<close>, which calls \<open>stop(60)\<close> on the wallet and on the
  node Service: so far the code does what the claim says. Now let the node process exit
  while \<open>start()\<close> awaits \<open>walletService.start()\<close>, before the API port is connectable.
  The listener calls \<open>Launcher.stop()\<close>, both Services answer and the exit notification
  is emitted, at a moment when \<open>start()\<close> has not registered its listener for it (the call
  is still at its second \<^verbatim>\<open>await\<close>). When \<open>walletService.start()\<close> is fulfilled,
  \<open>start()\<close> begins the readiness wait, which the next tick aborts with "Polling
  stopped", and registers its listeners: the promise of \<open>start()\<close> is pending. It is not
  rejected then, nor after any further events \<open>evs\<close>, where the claim says that
  \<open>start()\<close> rejects.
\<close>

theorem start_stays_pending_when_node_exits_early:
  "stopCalls (statusChanged sv Stopped l) = stopCalls l @ [StopPending]
   \<and> trace (statusChanged sv Stopped l)
       = trace l @ [ServiceStop WalletSvc 60, ServiceStop NodeSvc 60]
   \<and> exitsOf (trace (run P (nodeExitsEarly w n) (Launcher_init c))) = [\<lparr>wallet = w, node = n\<rparr>]
   \<and> stopCalls (run P (nodeExitsEarly w n) (Launcher_init c)) = [StopDone \<lparr>wallet = w, node = n\<rparr>]
   \<and> startCalls (run P (nodeExitsEarly w n) (Launcher_init c))
       = [\<lparr> phase = Listening, timer = False,
            waitApi = PollingFailed (Error ''Polling stopped''), sockets = 0 \<rparr>]
   \<and> phase (startCalls (run P (take 6 (nodeExitsEarly w n)) (Launcher_init c)) ! 0) = AwaitWallet
   \<and> (\<forall>e. phase (startCalls (run P (nodeExitsEarly w n @ evs) (Launcher_init c)) ! 0) \<noteq> Failed e)"
proof -
  let ?l = "run P (nodeExitsEarly w n) (Launcher_init c)"
  have a: "exitsOf (trace ?l) = [\<lparr>wallet = w, node = n\<rparr>]"
    "stopCalls ?l = [StopDone \<lparr>wallet = w, node = n\<rparr>]"
    "startCalls ?l = [\<lparr> phase = Listening, timer = False,
            waitApi = PollingFailed (Error ''Polling stopped''), sockets = 0 \<rparr>]"
    "exited ?l"
    by (simp_all add: nodeExitsEarly_def run_def Launcher_init_def Launcher_start_def
          newStartCall_def startResumed_def statusChanged_def Launcher_stop_def
          servicesStopped_def emitExit_def poll_def stopWaiting_def Let_def)
  have b: "phase (startCalls (run P (take 6 (nodeExitsEarly w n)) (Launcher_init c)) ! 0) = AwaitWallet"
    by (simp add: nodeExitsEarly_def run_def Launcher_init_def Launcher_start_def
          newStartCall_def startResumed_def statusChanged_def Launcher_stop_def
          servicesStopped_def emitExit_def Let_def)
  from a have "unrejected 0 ?l"
    by (simp add: unrejected_def phases_def)
  then have "unrejected 0 (run P evs ?l)"
    by (rule unrejected_run)
  then have "phase (startCalls (run P evs ?l) ! 0) \<noteq> Failed e" for e
    by (auto simp: unrejected_def phases_def split: startPhase.splits)
  then have c: "\<forall>e. phase (startCalls (run P (nodeExitsEarly w n @ evs) (Launcher_init c)) ! 0)
      \<noteq> Failed e"
    by (simp add: run_append)
  have d: "stopCalls (statusChanged sv Stopped l) = stopCalls l @ [StopPending]"
    "trace (statusChanged sv Stopped l)
       = trace l @ [ServiceStop WalletSvc 60, ServiceStop NodeSvc 60]"
    by (cases sv; simp add: statusChanged_def Launcher_stop_def Let_def)+
  from a b c d show ?thesis by blast
qed

section \<open>Repeated calls of stop()\<close>














end
